theory Spec2Isabelle
  imports
    Main
    "HOL-Library.Sublist"
    "HOL-Library.Char_ord"
    "HOL-Library.List_Lexorder"
begin

section \<open>The Python values the script handles\<close>

text \<open>
  The script \<^verbatim>\<open>DSPy_workflow/argumentative_extractor.py\<close> works on Python strings,
  on the values \<^verbatim>\<open>json.load\<close> produces and on the records of the prompt framework.
  Strings are lists of characters; a character is one code point below 256, which
  covers every character the script itself writes (commas, colons, spaces, the period
  and the letters of \<^verbatim>\<open>all_present\<close>).  Exceptions are values: a function that can
  raise returns \<open>error + 'a\<close>, with \<open>Inl\<close> for the exception.  Console output
  (\<^verbatim>\<open>print\<close>) is not part of the model.
\<close>

datatype error =
    KeyError string
  | AttributeError
  | TypeError
  | SystemExit nat
  | Raised string

text \<open>
  \<open>KeyError\<close>, \<open>AttributeError\<close> and \<open>TypeError\<close> are raised by the interpreter while
  it runs the script's own statements; \<open>SystemExit code\<close> is how the argument parser
  ends the program; \<open>Raised name\<close> stands for any exception coming
  out of a collaborator (the file system, the JSON parser, the framework, the hosted
  model).
\<close>

datatype json =
    JNull
  | JBool bool
  | JInt int
  | JFloat int int
  | JStr string
  | JArr "json list"
  | JObj "(string \<times> json) list"

text \<open>
  A parsed JSON object is a Python \<^verbatim>\<open>dict\<close>, kept as the list of its items in
  insertion order.  \<open>JFloat m e\<close> is the float \<open>m * 2^e\<close>; the script never looks at
  a number.
\<close>

subsection \<open>String methods\<close>

definition isspace :: "char \<Rightarrow> bool" where
  "isspace c = (of_char c \<in> set [9, 10, 11, 12, 13, 28, 29, 30, 31, 32, 133, 160 :: nat])"

definition lower_char :: "char \<Rightarrow> char" where
  "lower_char c =
     (let n = (of_char c :: nat)
      in if (65 \<le> n \<and> n \<le> 90) \<or> (192 \<le> n \<and> n \<le> 222 \<and> n \<noteq> 215)
         then char_of (n + 32) else c)"

definition lower :: "string \<Rightarrow> string" where
  "lower s = map lower_char s"

definition strip :: "string \<Rightarrow> string" where
  "strip s = rev (dropWhile isspace (rev (dropWhile isspace s)))"

text \<open>\<^verbatim>\<open>s.replace(old, new)\<close> for a one-character \<open>old\<close>.\<close>

definition replace :: "char \<Rightarrow> string \<Rightarrow> string \<Rightarrow> string" where
  "replace old new s = concat (map (\<lambda>c. if c = old then new else [c]) s)"

text \<open>
  \<^verbatim>\<open>s.split(sep)\<close> with the separator \<open>sep = c # cs\<close>, non-empty by construction as
  at every call of the script (Python raises \<^verbatim>\<open>ValueError\<close> for an empty separator).
  The string is cut at the non-overlapping occurrences of the separator, leftmost
  first; the result always has at least one element.
\<close>

fun split :: "char \<Rightarrow> string \<Rightarrow> string \<Rightarrow> string list" where
  "split c cs [] = [[]]"
| "split c cs (x # xs) =
     (if prefix (c # cs) (x # xs) then [] # split c cs (drop (length cs) xs)
      else (case split c cs xs of
              [] \<Rightarrow> [[x]]
            | w # ws \<Rightarrow> (x # w) # ws))"

text \<open>\<^verbatim>\<open>sep.join(xs)\<close>.\<close>

fun join :: "string \<Rightarrow> string list \<Rightarrow> string" where
  "join sep [] = []"
| "join sep [x] = x"
| "join sep (x # y # ys) = x @ sep @ join sep (y # ys)"

text \<open>\<^verbatim>\<open>sub in s\<close> on strings: \<open>sub\<close> occurs in \<open>s\<close> as a contiguous block.\<close>

fun contains :: "string \<Rightarrow> string \<Rightarrow> bool" where
  "contains [] sub = (sub = [])"
| "contains (x # xs) sub = (prefix sub (x # xs) \<or> contains xs sub)"

subsection \<open>The builtin \<^verbatim>\<open>all\<close>\<close>

text \<open>
  \<^verbatim>\<open>all\<close> takes exactly one positional argument, which must be iterable.  A call is
  modelled with the list of its positional arguments; the values the script passes
  are booleans and iterables of booleans.  Any other shape of call raises
  \<^verbatim>\<open>TypeError\<close>: a wrong number of arguments, or one argument that is not iterable.
\<close>

datatype arg = Bool bool | Iterable "bool list"

definition builtin_all :: "arg list \<Rightarrow> error + bool" where
  "builtin_all args =
     (case args of
        [Iterable bs] \<Rightarrow> Inr (list_all (\<lambda>b. b) bs)
      | _ \<Rightarrow> Inl TypeError)"

section \<open>Examples and predictions\<close>

text \<open>
  \<^verbatim>\<open>dspy.Example\<close> belongs to the framework, which is not part of the repository.
  The script uses an example as a dictionary (\<^verbatim>\<open>"missing" in example\<close>,
  \<^verbatim>\<open>example["missing"]\<close>), so an example is the list of the items of its store.
\<close>

type_synonym example = "(string \<times> json) list"

definition has_key :: "example \<Rightarrow> string \<Rightarrow> bool" where
  "has_key example k = (map_of example k \<noteq> None)"

definition getitem :: "example \<Rightarrow> string \<Rightarrow> error + json" where
  "getitem example k = (case map_of example k of None \<Rightarrow> Inl (KeyError k) | Some v \<Rightarrow> Inr v)"

record prediction =
  topic_sentence :: "string option"
  evidence :: "string option"
  analysis :: "string option"
  tieback_or_transition :: "string option"

section \<open>The metric\<close>

text \<open>
  \<^verbatim>\<open>dspy.evaluate.answer_exact_match\<close> is the framework's; the metric receives it as
  the parameter \<open>answer_exact_match\<close>, called with a field of the prediction and the
  value stored in the example.
\<close>

definition str_split_method :: "json \<Rightarrow> char \<Rightarrow> string \<Rightarrow> error + string list" where
  "str_split_method v c cs = (case v of JStr s \<Rightarrow> Inr (split c cs s) | _ \<Rightarrow> Inl AttributeError)"

definition exact_match_call ::
  "(string option \<Rightarrow> json \<Rightarrow> error + bool) \<Rightarrow> string option \<Rightarrow> example \<Rightarrow> string \<Rightarrow> error + bool" where
  "exact_match_call answer_exact_match field example k =
     (case getitem example k of
        Inl e \<Rightarrow> Inl e
      | Inr v \<Rightarrow> answer_exact_match field v)"

definition predicted_missing_parts :: "string \<Rightarrow> string list" where
  "predicted_missing_parts t =
     sort (split (CHR '','') '' '' (strip (last (split (CHR '':'') [] t))))"

definition is_text_complete_and_correct ::
  "(string option \<Rightarrow> json \<Rightarrow> error + bool) \<Rightarrow> example \<Rightarrow> prediction \<Rightarrow> error + bool" where
  "is_text_complete_and_correct answer_exact_match example prediction =
     (if has_key example ''missing'' then
        (case getitem example ''missing'' of
           Inl e \<Rightarrow> Inl e
         | Inr v \<Rightarrow>
             (case str_split_method v (CHR '','') [] of
                Inl e \<Rightarrow> Inl e
              | Inr parts \<Rightarrow>
                  (let expected_missing_parts = sort parts in
                   case tieback_or_transition prediction of
                     None \<Rightarrow> Inl AttributeError
                   | Some t \<Rightarrow>
                       builtin_all
                         [Iterable (map (\<lambda>part. part \<in> set (predicted_missing_parts t))
                                        expected_missing_parts)])))
      else
        (case exact_match_call answer_exact_match (topic_sentence prediction) example ''topic_sentence'' of
           Inl e \<Rightarrow> Inl e
         | Inr c1 \<Rightarrow>
        (case exact_match_call answer_exact_match (evidence prediction) example ''evidence'' of
           Inl e \<Rightarrow> Inl e
         | Inr c2 \<Rightarrow>
        (case exact_match_call answer_exact_match (analysis prediction) example ''analysis'' of
           Inl e \<Rightarrow> Inl e
         | Inr c3 \<Rightarrow>
        (case exact_match_call answer_exact_match (tieback_or_transition prediction) example
                ''tieback_or_transition'' of
           Inl e \<Rightarrow> Inl e
         | Inr c4 \<Rightarrow> builtin_all [Bool c1, Bool c2, Bool c3, Bool c4])))))"

section \<open>The module\<close>

text \<open>
  The two predictors of \<^verbatim>\<open>ArgumentativeExtractor\<close> are \<^verbatim>\<open>dspy.Predict\<close> objects: calls
  into the framework and, through it, into the hosted model.  A predictor is a
  parameter: it takes the text and the state \<open>'w\<close> of everything outside the script
  (the model, the framework's caches and counters) and returns its answer, or the
  exception it raised, with the new state.  \<open>completeness_classifier\<close> answers with the
  \<^verbatim>\<open>missing_components\<close> field of its result, \<open>structure_extractor\<close> with the
  prediction it built.
\<close>

record 'w ArgumentativeExtractor =
  completeness_classifier :: "string \<Rightarrow> 'w \<Rightarrow> (error + string) \<times> 'w"
  structure_extractor :: "string \<Rightarrow> 'w \<Rightarrow> (error + prediction) \<times> 'w"

text \<open>The calls \<^verbatim>\<open>forward\<close> makes to its predictors, in the order it makes them.\<close>

datatype call = Classifier_call string | Extractor_call string

definition reports_complete :: "string \<Rightarrow> bool" where
  "reports_complete missing_components = contains (lower missing_components) ''all_present''"

definition missing_parts :: "string \<Rightarrow> string list" where
  "missing_parts missing_components =
     split (CHR '','') [] (replace (CHR '' '') [] missing_components)"

definition incomplete_message :: "string \<Rightarrow> string" where
  "incomplete_message missing_components =
     ''The provided text is incomplete. The following components are missing: ''
       @ join '', '' (missing_parts missing_components) @ ''.''"

text \<open>
  \<open>forward self text w\<close> returns what the method returns (or raises), the calls it made
  and the state it leaves.
\<close>

definition forward ::
  "'w ArgumentativeExtractor \<Rightarrow> string \<Rightarrow> 'w \<Rightarrow> (error + prediction) \<times> call list \<times> 'w" where
  "forward self text w =
     (case completeness_classifier self text w of
        (Inl e, w1) \<Rightarrow> (Inl e, [Classifier_call text], w1)
      | (Inr missing_components, w1) \<Rightarrow>
          if reports_complete missing_components then
            (case structure_extractor self text w1 of
               (extraction_result, w2) \<Rightarrow>
                 (extraction_result, [Classifier_call text, Extractor_call text], w2))
          else
            (Inr \<lparr> topic_sentence = None,
                   evidence = None,
                   analysis = None,
                   tieback_or_transition = Some (incomplete_message missing_components) \<rparr>,
             [Classifier_call text], w1))"

section \<open>Loading the training set\<close>

text \<open>
  \<^verbatim>\<open>open\<close> and \<^verbatim>\<open>json.load\<close> are the parameter \<open>json_load\<close>: the parsed content of the
  file at a path, or the exception raised while opening or parsing it.
\<close>

text \<open>\<^verbatim>\<open>data[k]\<close> with a string key: only a dictionary can be indexed by a string.\<close>

definition subscript :: "json \<Rightarrow> string \<Rightarrow> error + json" where
  "subscript data k = (case data of JObj items \<Rightarrow> getitem items k | _ \<Rightarrow> Inl TypeError)"

text \<open>
  The values a \<^verbatim>\<open>for\<close> loop draws from a parsed JSON value: the elements of a list,
  the keys of a dictionary, the characters of a string; nothing else is iterable.
\<close>

definition iter :: "json \<Rightarrow> error + json list" where
  "iter v =
     (case v of
        JArr xs \<Rightarrow> Inr xs
      | JObj items \<Rightarrow> Inr (map (\<lambda>(k, _). JStr k) items)
      | JStr s \<Rightarrow> Inr (map (\<lambda>c. JStr [c]) s)
      | _ \<Rightarrow> Inl TypeError)"

text \<open>\<^verbatim>\<open>d[k] = v\<close> and \<^verbatim>\<open>d.update(kwargs)\<close> on a dictionary kept as the list of its items.\<close>

fun setitem :: "(string \<times> json) list \<Rightarrow> string \<Rightarrow> json \<Rightarrow> (string \<times> json) list" where
  "setitem [] k v = [(k, v)]"
| "setitem ((k', v') # d) k v = (if k' = k then (k, v) # d else (k', v') # setitem d k v)"

definition dict_update :: "(string \<times> json) list \<Rightarrow> (string \<times> json) list \<Rightarrow> (string \<times> json) list" where
  "dict_update d kwargs = foldl (\<lambda>d (k, v). setitem d k v) d kwargs"

text \<open>
  \<^verbatim>\<open>dspy.Example(**sample)\<close>.  Unpacking with \<^verbatim>\<open>**\<close> needs a mapping, otherwise the
  interpreter raises \<^verbatim>\<open>TypeError\<close> before the framework is entered.  The
  framework's constructor is \<^verbatim>\<open>__init__(self, base=None, **kwargs)\<close>, so the keys of
  the record are bound to its parameters: a key \<^verbatim>\<open>self\<close> collides with the first
  parameter and raises \<^verbatim>\<open>TypeError\<close>; a key \<^verbatim>\<open>base\<close> is taken as the parameter
  \<^verbatim>\<open>base\<close> and is not a keyword argument.  The store of the example starts as a copy
  of \<^verbatim>\<open>base\<close> when that is a non-empty dictionary, empty otherwise, and is then
  updated with the keyword arguments.
\<close>

definition Example :: "json \<Rightarrow> error + example" where
  "Example sample =
     (case sample of
        JObj items \<Rightarrow>
          if has_key items ''self'' then Inl TypeError
          else
            (let kwargs = filter (\<lambda>(k, _). k \<noteq> ''base'') items
             in case map_of items ''base'' of
                  Some (JObj base) \<Rightarrow>
                    if base \<noteq> [] then Inr (dict_update base kwargs) else Inr kwargs
                | _ \<Rightarrow> Inr kwargs)
      | _ \<Rightarrow> Inl TypeError)"

fun load_loop :: "json list \<Rightarrow> example list \<Rightarrow> error + example list" where
  "load_loop [] trainset = Inr trainset"
| "load_loop (sample # rest) trainset =
     (case Example sample of
        Inl e \<Rightarrow> Inl e
      | Inr example \<Rightarrow> load_loop rest (trainset @ [example]))"

definition load_trainset :: "(string \<Rightarrow> error + json) \<Rightarrow> string \<Rightarrow> error + example list" where
  "load_trainset json_load json_file_path =
     (case json_load json_file_path of
        Inl e \<Rightarrow> Inl e
      | Inr data \<Rightarrow>
          (case subscript data ''samples'' of
             Inl e \<Rightarrow> Inl e
           | Inr samples \<Rightarrow>
               (case iter samples of
                  Inl e \<Rightarrow> Inl e
                | Inr xs \<Rightarrow> load_loop xs [])))"

section \<open>Printing the prompts\<close>

text \<open>
  \<^verbatim>\<open>demo.name\<close> on an example: the value stored under the name, \<^verbatim>\<open>AttributeError\<close>
  when the example has none.
\<close>

definition getattr :: "example \<Rightarrow> string \<Rightarrow> error + json" where
  "getattr example name =
     (case map_of example name of None \<Rightarrow> Inl AttributeError | Some v \<Rightarrow> Inr v)"

text \<open>
  A compiled module is the module with the demonstrations the optimizer attached to
  its two predictors; the \<^verbatim>\<open>demos\<close> attribute of a predictor is a list of examples, or
  \<^verbatim>\<open>None\<close>.  The \<^verbatim>\<open>signature.instructions\<close> of a predictor are a string of the
  framework's and are only printed.
\<close>

record 'w compiled_module =
  extractor :: "'w ArgumentativeExtractor"
  completeness_classifier_demos :: "example list option"
  structure_extractor_demos :: "example list option"

text \<open>\<^verbatim>\<open>demos or []\<close>: \<^verbatim>\<open>None\<close> and the empty list both give the empty list.\<close>

definition or_empty :: "example list option \<Rightarrow> example list" where
  "or_empty demos = (case demos of None \<Rightarrow> [] | Some ds \<Rightarrow> ds)"

text \<open>
  The two loops of \<^verbatim>\<open>print_full_prompt\<close>: each reads the fields of a demonstration in
  the order the source prints them.  What is printed is left out.
\<close>

fun completeness_classifier_loop :: "example list \<Rightarrow> error + unit" where
  "completeness_classifier_loop [] = Inr ()"
| "completeness_classifier_loop (demo # demos) =
     (case getattr demo ''text'' of
        Inl e \<Rightarrow> Inl e
      | Inr _ \<Rightarrow>
     (case getattr demo ''missing_components'' of
        Inl e \<Rightarrow> Inl e
      | Inr _ \<Rightarrow> completeness_classifier_loop demos))"

fun structure_extractor_loop :: "example list \<Rightarrow> error + unit" where
  "structure_extractor_loop [] = Inr ()"
| "structure_extractor_loop (demo # demos) =
     (case getattr demo ''context'' of
        Inl e \<Rightarrow> Inl e
      | Inr _ \<Rightarrow>
     (case getattr demo ''topic_sentence'' of
        Inl e \<Rightarrow> Inl e
      | Inr _ \<Rightarrow>
     (case getattr demo ''evidence'' of
        Inl e \<Rightarrow> Inl e
      | Inr _ \<Rightarrow>
     (case getattr demo ''analysis'' of
        Inl e \<Rightarrow> Inl e
      | Inr _ \<Rightarrow>
     (case getattr demo ''tieback_or_transition'' of
        Inl e \<Rightarrow> Inl e
      | Inr _ \<Rightarrow> structure_extractor_loop demos)))))"

definition print_full_prompt :: "'w compiled_module \<Rightarrow> error + unit" where
  "print_full_prompt compiled_module =
     (case completeness_classifier_loop
             (or_empty (completeness_classifier_demos compiled_module)) of
        Inl e \<Rightarrow> Inl e
      | Inr _ \<Rightarrow>
          structure_extractor_loop (or_empty (structure_extractor_demos compiled_module)))"

section \<open>The main function\<close>

datatype optimizer = BootstrapFewShot | MIPROv2

text \<open>
  The optimizer is the framework's.  \<open>compile\<close> stands for building the chosen
  optimizer around the metric and running its \<^verbatim>\<open>compile\<close> on the student module and
  the training set; \<open>student\<close> is the freshly built \<^verbatim>\<open>ArgumentativeExtractor()\<close>.
  Calling the compiled module runs its \<^verbatim>\<open>forward\<close>.  The calls of \<^verbatim>\<open>print\<close> are left
  out.
\<close>

definition unseen_text_complete :: string where
  "unseen_text_complete = ''Regular physical activity leads to significant improvements in mental health. For instance, a 2023 study published in The Lancet showed that individuals who exercised for at least 150 minutes per week reported a 30% reduction in symptoms of anxiety and depression compared to a control group. This outcome suggests that exercise acts as a powerful non-pharmacological intervention, directly impacting neurological pathways related to mood regulation. Therefore, integrating exercise programs into public health initiatives is an effective way to address the growing mental health crisis.''"

definition unseen_text_incomplete :: string where
  "unseen_text_incomplete = ''Dogs are the best pets.''"

definition main ::
  "(string \<Rightarrow> error + json) \<Rightarrow>
   (optimizer \<Rightarrow> 'w ArgumentativeExtractor \<Rightarrow> example list \<Rightarrow> 'w
      \<Rightarrow> (error + 'w compiled_module) \<times> 'w) \<Rightarrow>
   'w ArgumentativeExtractor \<Rightarrow> string \<Rightarrow> string \<Rightarrow> 'w \<Rightarrow>
   (error + 'w compiled_module) \<times> 'w" where
  "main json_load compile student json_file_path optimizer_type w =
     (case load_trainset json_load json_file_path of
        Inl e \<Rightarrow> (Inl e, w)
      | Inr trainset \<Rightarrow>
          (let optimizer =
                 (if optimizer_type = ''BootstrapFewShot'' then BootstrapFewShot else MIPROv2)
           in case compile optimizer student trainset w of
                (Inl e, w1) \<Rightarrow> (Inl e, w1)
              | (Inr compiled_extractor, w1) \<Rightarrow>
                  (case forward (extractor compiled_extractor) unseen_text_complete w1 of
                     (Inl e, _, w2) \<Rightarrow> (Inl e, w2)
                   | (Inr _, _, w2) \<Rightarrow>
                       (case forward (extractor compiled_extractor) unseen_text_incomplete w2 of
                          (Inl e, _, w3) \<Rightarrow> (Inl e, w3)
                        | (Inr _, _, w3) \<Rightarrow>
                            (case print_full_prompt compiled_extractor of
                               Inl e \<Rightarrow> (Inl e, w3)
                             | Inr _ \<Rightarrow> (Inr compiled_extractor, w3))))))"

section \<open>The command line\<close>

text \<open>
  The command line is parsed by \<^verbatim>\<open>argparse\<close> of the standard library (here as in
  CPython 3.11); the script only declares the arguments.  The model keeps
  \<^verbatim>\<open>argparse\<close>'s own structure
  (\<^verbatim>\<open>_parse_optional\<close>, \<^verbatim>\<open>_get_option_tuples\<close>, \<^verbatim>\<open>consume_optional\<close>,
  \<^verbatim>\<open>consume_positionals\<close>, \<^verbatim>\<open>_get_values\<close>, \<^verbatim>\<open>_check_value\<close>) for the two kinds of
  argument the script's parser holds: an argument that stores one string
  (\<^verbatim>\<open>nargs=None\<close>) and the help flag the parser adds by itself (\<^verbatim>\<open>nargs=0\<close>).
  \<^verbatim>\<open>parser.error\<close> is \<^verbatim>\<open>SystemExit(2)\<close>, printing the help is \<^verbatim>\<open>SystemExit(0)\<close>.
\<close>

datatype nsval = PyNone | PyStr string | PyList "string list"

datatype kind = Store | Help

record action =
  option_strings :: "string list"
  dest :: string
  kind :: kind
  choices :: "string list option"
  default_value :: "nsval option"
  required :: bool

type_synonym parser = "action list"

text \<open>A new parser holds the help flag \<^verbatim>\<open>-h\<close>, \<^verbatim>\<open>--help\<close>.\<close>

definition ArgumentParser :: parser where
  "ArgumentParser =
     [\<lparr> option_strings = [''-h'', ''--help''], dest = ''help'', kind = Help,
         choices = None, default_value = None, required = False \<rparr>]"

text \<open>
  \<^verbatim>\<open>parser.add_argument(name, choices=cs, default=d)\<close>: a name starting with \<^verbatim>\<open>-\<close>
  declares an optional flag, any other name a required positional argument.
\<close>

definition add_argument ::
  "parser \<Rightarrow> string \<Rightarrow> string list option \<Rightarrow> nsval \<Rightarrow> parser" where
  "add_argument parser name cs d =
     parser @
     [if prefix ''-'' name
      then \<lparr> option_strings = [name],
             dest = map (\<lambda>c. if c = CHR ''-'' then CHR ''_'' else c) (dropWhile (\<lambda>c. c = CHR ''-'') name),
             kind = Store, choices = cs, default_value = Some d, required = False \<rparr>
      else \<lparr> option_strings = [], dest = name, kind = Store, choices = cs,
             default_value = Some d, required = True \<rparr>]"

definition option_string_actions :: "parser \<Rightarrow> (string \<times> action) list" where
  "option_string_actions parser = concat (map (\<lambda>a. map (\<lambda>s. (s, a)) (option_strings a)) parser)"

text \<open>
  Each command-line string is classified: an argument (\<^verbatim>\<open>A\<close>), the separator
  \<^verbatim>\<open>--\<close>, or an option with the action that was recognised (if any), the option
  string, the separator and the argument written in the same string.
\<close>

datatype token = Arg | DashDash | Opt "action option" string "string option" "string option"

text \<open>\<^verbatim>\<open>s.partition(c)\<close>.\<close>

definition str_partition :: "char \<Rightarrow> string \<Rightarrow> string \<times> string \<times> string" where
  "str_partition c s =
     (case dropWhile (\<lambda>x. x \<noteq> c) s of
        [] \<Rightarrow> (s, [], [])
      | _ # rest \<Rightarrow> (takeWhile (\<lambda>x. x \<noteq> c) s, [c], rest))"

definition isdigit :: "char \<Rightarrow> bool" where
  "isdigit c = (48 \<le> (of_char c :: nat) \<and> (of_char c :: nat) \<le> 57)"

text \<open>The pattern \<^verbatim>\<open>^-\d+$|^-\d*\.\d+$\<close>; \<^verbatim>\<open>$\<close> also matches before a final newline.\<close>

definition negative_number :: "string \<Rightarrow> bool" where
  "negative_number s =
     (case (if s \<noteq> [] \<and> last s = CHR 0x0A then butlast s else s) of
        [] \<Rightarrow> False
      | c # t \<Rightarrow>
          c = CHR ''-'' \<and>
          ((t \<noteq> [] \<and> list_all isdigit t)
           \<or> (let i = takeWhile isdigit t; f = dropWhile isdigit t
               in case f of
                    [] \<Rightarrow> False
                  | p # ds \<Rightarrow> p = CHR ''.'' \<and> ds \<noteq> [] \<and> list_all isdigit ds)))"

definition get_option_tuples :: "parser \<Rightarrow> string \<Rightarrow> token list" where
  "get_option_tuples parser option_string =
     (if prefix ''--'' option_string then
        (case str_partition (CHR ''='') option_string of
           (option_prefix, sep, explicit_arg) \<Rightarrow>
             concat (map (\<lambda>(s, a).
                 if prefix option_prefix s
                 then [Opt (Some a) s (if sep = [] then None else Some sep)
                                    (if sep = [] then None else Some explicit_arg)]
                 else [])
               (option_string_actions parser)))
      else
        concat (map (\<lambda>(s, a).
            if s = take 2 option_string then [Opt (Some a) s (Some []) (Some (drop 2 option_string))]
            else if prefix option_string s then [Opt (Some a) s None None]
            else [])
          (option_string_actions parser)))"

definition parse_optional :: "parser \<Rightarrow> string \<Rightarrow> error + token" where
  "parse_optional parser arg_string =
     (if arg_string = [] then Inr Arg
      else if hd arg_string \<noteq> CHR ''-'' then Inr Arg
      else case map_of (option_string_actions parser) arg_string of
        Some a \<Rightarrow> Inr (Opt (Some a) arg_string None None)
      | None \<Rightarrow>
          if length arg_string = 1 then Inr Arg
          else case str_partition (CHR ''='') arg_string of
            (option_string, sep, explicit_arg) \<Rightarrow>
              (case (if sep \<noteq> [] then map_of (option_string_actions parser) option_string else None) of
                 Some a \<Rightarrow> Inr (Opt (Some a) option_string (Some sep) (Some explicit_arg))
               | None \<Rightarrow>
                   (let option_tuples = get_option_tuples parser arg_string in
                    if length option_tuples > 1 then Inl (SystemExit 2)
                    else if length option_tuples = 1 then Inr (hd option_tuples)
                    else if negative_number arg_string
                            \<and> \<not> list_ex negative_number (map fst (option_string_actions parser))
                         then Inr Arg
                    else if CHR '' '' \<in> set arg_string then Inr Arg
                    else Inr (Opt None arg_string None None))))"

fun classify :: "parser \<Rightarrow> string list \<Rightarrow> error + (token \<times> string) list" where
  "classify parser [] = Inr []"
| "classify parser (arg_string # rest) =
     (if arg_string = ''--'' then Inr ((DashDash, arg_string) # map (\<lambda>s. (Arg, s)) rest)
      else case parse_optional parser arg_string of
        Inl e \<Rightarrow> Inl e
      | Inr t \<Rightarrow>
          (case classify parser rest of
             Inl e \<Rightarrow> Inl e
           | Inr ts \<Rightarrow> Inr ((t, arg_string) # ts)))"

text \<open>What the parsing loop updates: the namespace, the positionals still to be
  filled, the actions seen and the strings nobody took.\<close>

record state =
  namespace :: "(string \<times> nsval) list"
  positionals :: "action list"
  seen_actions :: "action list"
  extras :: "string list"

definition setattr :: "(string \<times> nsval) list \<Rightarrow> string \<Rightarrow> nsval \<Rightarrow> (string \<times> nsval) list" where
  "setattr ns d v = (d, v) # filter (\<lambda>(k, _). k \<noteq> d) ns"

definition check_value :: "action \<Rightarrow> string \<Rightarrow> bool" where
  "check_value action v = (case choices action of None \<Rightarrow> True | Some cs \<Rightarrow> v \<in> set cs)"

definition get_values :: "action \<Rightarrow> string list \<Rightarrow> error + nsval" where
  "get_values action arg_strings =
     (let args = (if option_strings action = [] then remove1 ''--'' arg_strings else arg_strings)
      in if length args = 1 \<and> kind action = Store then
           (if check_value action (hd args) then Inr (PyStr (hd args)) else Inl (SystemExit 2))
         else if list_all (check_value action) args then Inr (PyList args)
         else Inl (SystemExit 2))"

definition take_action :: "action \<Rightarrow> string list \<Rightarrow> state \<Rightarrow> error + state" where
  "take_action action argument_strings st =
     (case get_values action argument_strings of
        Inl e \<Rightarrow> Inl e
      | Inr argument_values \<Rightarrow>
          (case kind action of
             Help \<Rightarrow> Inl (SystemExit 0)
           | Store \<Rightarrow>
               Inr (st\<lparr> seen_actions := seen_actions st @ [action],
                        namespace := setattr (namespace st) (dest action) argument_values \<rparr>)))"

fun take_actions :: "(action \<times> string list) list \<Rightarrow> state \<Rightarrow> error + state" where
  "take_actions [] st = Inr st"
| "take_actions ((action, args) # rest) st =
     (case take_action action args st of
        Inl e \<Rightarrow> Inl e
      | Inr st' \<Rightarrow> take_actions rest st')"

text \<open>
  The pattern \<^verbatim>\<open>(-*A-*)\<close> of one positional against the classified strings: the
  number of strings it takes, if it matches.
\<close>

definition match_positional :: "(token \<times> string) list \<Rightarrow> nat option" where
  "match_positional items =
     (let lead = takeWhile (\<lambda>(t, _). t = DashDash) items;
          rest = dropWhile (\<lambda>(t, _). t = DashDash) items
      in case rest of
           (Arg, _) # after \<Rightarrow> Some (length lead + 1 + length (takeWhile (\<lambda>(t, _). t = DashDash) after))
         | _ \<Rightarrow> None)"

fun match_arguments_partial :: "nat \<Rightarrow> (token \<times> string) list \<Rightarrow> nat list" where
  "match_arguments_partial 0 items = []"
| "match_arguments_partial (Suc n) items =
     (case match_positional items of
        None \<Rightarrow> []
      | Some c \<Rightarrow> c # match_arguments_partial n (drop c items))"

fun slices :: "nat list \<Rightarrow> 'a list \<Rightarrow> 'a list list" where
  "slices [] xs = []"
| "slices (c # cs) xs = take c xs # slices cs (drop c xs)"

definition consume_positionals :: "(token \<times> string) list \<Rightarrow> state \<Rightarrow> error + nat \<times> state" where
  "consume_positionals items st =
     (let arg_counts = match_arguments_partial (length (positionals st)) items
      in case take_actions (zip (positionals st) (slices arg_counts (map snd items))) st of
           Inl e \<Rightarrow> Inl e
         | Inr st' \<Rightarrow>
             Inr (sum_list arg_counts,
                  st'\<lparr> positionals := drop (length arg_counts) (positionals st') \<rparr>))"

text \<open>
  The loop of \<^verbatim>\<open>consume_optional\<close>: it collects the actions to take, the strings to
  add to the extras and the number of following strings the option takes.
\<close>

function optional_loop ::
  "parser \<Rightarrow> action \<Rightarrow> string \<Rightarrow> string option \<Rightarrow> string option \<Rightarrow> (token \<times> string) list
     \<Rightarrow> (action \<times> string list) list
     \<Rightarrow> error + (action \<times> string list) list \<times> string list \<times> nat" where
  "optional_loop parser action option_string sep explicit_arg following action_tuples =
     (case explicit_arg of
        Some ex \<Rightarrow>
          if kind action = Help \<and> take 1 (drop 1 option_string) \<noteq> ''-'' \<and> ex \<noteq> [] then
            (if (sep \<noteq> None \<and> sep \<noteq> Some []) \<or> hd ex = CHR ''-'' then Inl (SystemExit 2)
             else
               (case map_of (option_string_actions parser) [CHR ''-'', hd ex] of
                  Some action' \<Rightarrow>
                    (if tl ex = [] then
                       optional_loop parser action' [CHR ''-'', hd ex] None None following
                         (action_tuples @ [(action, [])])
                     else if hd (tl ex) = CHR ''='' then
                       optional_loop parser action' [CHR ''-'', hd ex] (Some ''='') (Some (tl (tl ex)))
                         following (action_tuples @ [(action, [])])
                     else
                       optional_loop parser action' [CHR ''-'', hd ex] (Some []) (Some (tl ex))
                         following (action_tuples @ [(action, [])]))
                | None \<Rightarrow> Inr (action_tuples @ [(action, [])], [CHR ''-'' # ex], 0)))
          else if kind action = Store then Inr (action_tuples @ [(action, [ex])], [], 0)
          else Inl (SystemExit 2)
      | None \<Rightarrow>
          (case kind action of
             Help \<Rightarrow> Inr (action_tuples @ [(action, [])], [], 0)
           | Store \<Rightarrow>
               (case following of
                  (Arg, s) # _ \<Rightarrow> Inr (action_tuples @ [(action, [s])], [], 1)
                | _ \<Rightarrow> Inl (SystemExit 2))))"
  by pat_completeness auto
termination
  by (relation "measure (\<lambda>(parser, action, option_string, sep, explicit_arg, following, action_tuples).
        case explicit_arg of None \<Rightarrow> 0 | Some ex \<Rightarrow> Suc (length ex))")
     (auto simp: neq_Nil_conv)

declare optional_loop.simps [simp del]

definition consume_optional ::
  "parser \<Rightarrow> token \<Rightarrow> string \<Rightarrow> (token \<times> string) list \<Rightarrow> state \<Rightarrow> error + nat \<times> state" where
  "consume_optional parser t arg_string following st =
     (case t of
        Opt None _ _ _ \<Rightarrow> Inr (0, st\<lparr> extras := extras st @ [arg_string] \<rparr>)
      | Opt (Some action) option_string sep explicit_arg \<Rightarrow>
          (case optional_loop parser action option_string sep explicit_arg following [] of
             Inl e \<Rightarrow> Inl e
           | Inr (action_tuples, more_extras, arg_count) \<Rightarrow>
               (case take_actions action_tuples (st\<lparr> extras := extras st @ more_extras \<rparr>) of
                  Inl e \<Rightarrow> Inl e
                | Inr st' \<Rightarrow> Inr (arg_count, st')))
      | _ \<Rightarrow> Inr (0, st))"

definition is_option :: "token \<times> string \<Rightarrow> bool" where
  "is_option item = (case fst item of Opt _ _ _ _ \<Rightarrow> True | _ \<Rightarrow> False)"

text \<open>
  The main loop: positionals and options are consumed in turn until no option is
  left, then the remaining positionals.
\<close>

function consume :: "parser \<Rightarrow> (token \<times> string) list \<Rightarrow> state \<Rightarrow> error + state" where
  "consume parser items st =
     (if \<not> list_ex is_option items then
        (case consume_positionals items st of
           Inl e \<Rightarrow> Inl e
         | Inr (stop_index, st') \<Rightarrow>
             Inr (st'\<lparr> extras := extras st' @ map snd (drop stop_index items) \<rparr>))
      else
        (let next_option = length (takeWhile (\<lambda>i. \<not> is_option i) items) in
         case (if next_option \<noteq> 0 then consume_positionals items st else Inr (0, st)) of
           Inl e \<Rightarrow> Inl e
         | Inr (positionals_end, st') \<Rightarrow>
             if positionals_end > 0 then consume parser (drop positionals_end items) st'
             else
               (case drop next_option items of
                  [] \<Rightarrow> Inr st'
                | (t, arg_string) # following \<Rightarrow>
                    (case consume_optional parser t arg_string following
                            (st'\<lparr> extras := extras st' @ map snd (take next_option items) \<rparr>) of
                       Inl e \<Rightarrow> Inl e
                     | Inr (arg_count, st'') \<Rightarrow> consume parser (drop arg_count following) st''))))"
  by pat_completeness auto
termination
proof (relation "measure (\<lambda>(parser, items, st). length items)", goal_cases)
  case 1
  show ?case by simp
next
  case (2 parser items st x b xa y)
  then have "items \<noteq> []" by (auto simp: list_ex_iff)
  with 2 show ?case by simp
next
  case (3 parser items st x b xa y x21 x22 xaa ya ba xb yb)
  have "length (drop x items) = Suc (length x22)"
    using arg_cong[OF 3(6), of length] by simp
  then have "length x22 < length items" by simp
  then show ?case by simp
qed

declare consume.simps [simp del]

definition parse_args :: "parser \<Rightarrow> string list \<Rightarrow> error + (string \<times> nsval) list" where
  "parse_args parser args =
     (let namespace0 =
            concat (map (\<lambda>a. case default_value a of None \<Rightarrow> [] | Some d \<Rightarrow> [(dest a, d)]) parser)
      in case classify parser args of
           Inl e \<Rightarrow> Inl e
         | Inr items \<Rightarrow>
             (case consume parser items
                     \<lparr> namespace = namespace0,
                       positionals = filter (\<lambda>a. option_strings a = []) parser,
                       seen_actions = [], extras = [] \<rparr> of
                Inl e \<Rightarrow> Inl e
              | Inr st \<Rightarrow>
                  if list_ex (\<lambda>a. a \<notin> set (seen_actions st) \<and> required a) parser
                  then Inl (SystemExit 2)
                  else if extras st \<noteq> [] then Inl (SystemExit 2)
                  else Inr (namespace st)))"

text \<open>The parser the script declares (lines 151 to 153).\<close>

definition parser :: parser where
  "parser =
     add_argument
       (add_argument ArgumentParser ''json_file'' None PyNone)
       ''--optimizer'' (Some [''BootstrapFewShot'', ''MIPROv2'']) (PyStr ''MIPROv2'')"

subsection \<open>The declared actions and the invariants of the parsing loop\<close>

text \<open>
  The three actions the script's parser holds, the state the loop starts in, and the
  predicates the proofs carry through the loop: \<open>shape\<close> says how \<^verbatim>\<open>--\<close> can occur
  among the classified strings, \<open>parse_inv\<close> what holds of the namespace.
\<close>

definition help_action :: action where
  "help_action = \<lparr> option_strings = [''-h'', ''--help''], dest = ''help'', kind = Help,
         choices = None, default_value = None, required = False \<rparr>"

definition json_file_action :: action where
  "json_file_action = \<lparr> option_strings = [], dest = ''json_file'', kind = Store, choices = None,
             default_value = Some PyNone, required = True \<rparr>"

definition optimizer_action :: action where
  "optimizer_action = \<lparr> option_strings = [''--optimizer''], dest = ''optimizer'', kind = Store,
      choices = Some [''BootstrapFewShot'', ''MIPROv2''],
      default_value = Some (PyStr ''MIPROv2''), required = False \<rparr>"

definition initial_state :: state where
  "initial_state = \<lparr> namespace = [(''json_file'', PyNone), (''optimizer'', PyStr ''MIPROv2'')],
            positionals = [json_file_action], seen_actions = [], extras = [] \<rparr>"

fun shape :: "(token \<times> string) list \<Rightarrow> bool" where
  "shape [] = True"
| "shape ((DashDash, s) # rest) = (s = ''--'' \<and> list_all (\<lambda>(t, _). t = Arg) rest)"
| "shape ((Arg, s) # rest) = (s \<noteq> ''--'' \<and> shape rest)"
| "shape ((Opt a os sep ex, s) # rest) = shape rest"

definition token_ok :: "token \<Rightarrow> bool" where
  "token_ok t = (case t of Opt (Some a) _ _ _ \<Rightarrow> a = help_action \<or> a = optimizer_action | _ \<Rightarrow> True)"

definition tuple_ok :: "action \<times> string list \<Rightarrow> bool" where
  "tuple_ok tu = (fst tu = help_action \<or> (fst tu = optimizer_action \<and> length (snd tu) = 1))"

definition optimizer_ok :: "(string \<times> nsval) list \<Rightarrow> bool" where
  "optimizer_ok ns = (map_of ns ''optimizer'' = Some (PyStr ''BootstrapFewShot'')
                      \<or> map_of ns ''optimizer'' = Some (PyStr ''MIPROv2''))"

definition json_file_ok :: "string set \<Rightarrow> state \<Rightarrow> bool" where
  "json_file_ok S st = (json_file_action \<in> set (seen_actions st)
      \<longrightarrow> (\<exists>p \<in> S. map_of (namespace st) ''json_file'' = Some (PyStr p)))"

definition known_actions :: "parser \<Rightarrow> bool" where
  "known_actions ps = (\<forall>os a. map_of (option_string_actions ps) os = Some a
                          \<longrightarrow> a = help_action \<or> a = optimizer_action)"

definition parse_inv :: "string set \<Rightarrow> state \<Rightarrow> bool" where
  "parse_inv S st = (optimizer_ok (namespace st) \<and> json_file_ok S st
               \<and> (positionals st = [] \<or> positionals st = [json_file_action]))"

section \<open>Sample collaborators\<close>

text \<open>
  Concrete stand-ins for the framework and the hosted model, used to run the
  definitions on explicit inputs.  \<open>string_exact_match\<close> compares a prediction field
  with the expected string.
\<close>

definition string_exact_match :: "string option \<Rightarrow> json \<Rightarrow> error + bool" where
  "string_exact_match field v = Inr (case field of None \<Rightarrow> False | Some s \<Rightarrow> v = JStr s)"

text \<open>
  \<open>scripted_module c x\<close> is a module whose classifier always answers \<open>c\<close> and whose
  extractor always answers \<open>x\<close>; the state counts the calls made to the model.
\<close>

definition scripted_module :: "error + string \<Rightarrow> error + prediction \<Rightarrow> nat ArgumentativeExtractor" where
  "scripted_module c x =
     \<lparr> completeness_classifier = (\<lambda>text n. (c, Suc n)),
       structure_extractor = (\<lambda>text n. (x, Suc n)) \<rparr>"

definition full_prediction :: prediction where
  "full_prediction =
     \<lparr> topic_sentence = Some ''T'', evidence = Some ''E'', analysis = Some ''A'',
       tieback_or_transition = Some ''B'' \<rparr>"

text \<open>
  \<open>failing_module k\<close> is a module whose classifier reports the evidence missing while
  fewer than \<open>k\<close> calls have been made to the model, and raises an error afterwards.
\<close>

definition failing_module :: "nat \<Rightarrow> nat ArgumentativeExtractor" where
  "failing_module k =
     \<lparr> completeness_classifier =
         (\<lambda>text n. (if n < k then Inr ''evidence'' else Inl (Raised ''APIError''), Suc n)),
       structure_extractor = (\<lambda>text n. (Inr full_prediction, Suc n)) \<rparr>"


section \<open>The shape of a prediction\<close>





section \<open>Facts about the string methods\<close>

lemma split_not_Nil: "split c cs s \<noteq> []"
  by (induction c cs s rule: split.induct) (auto split: list.splits)

lemma builtin_all_iterable: "builtin_all [Iterable bs] = Inr (\<forall>b \<in> set bs. b)"
  by (simp add: builtin_all_def list_all_iff)

lemma builtin_all_four: "builtin_all [Bool a, Bool b, Bool c, Bool d] = Inl TypeError"
  by (simp add: builtin_all_def)

text \<open>
  Cutting at a one-character separator distributes over an occurrence of the
  separator; cutting at \<^verbatim>\<open>", "\<close> undoes joining with \<^verbatim>\<open>", "\<close> when no part
  holds a space.
\<close>

lemma not_prefix_Cons: "a \<notin> set p \<Longrightarrow> \<not> prefix (a # as) p"
  by (cases p) auto

lemma not_prefix_Cons_append: "a \<notin> set p \<Longrightarrow> a \<noteq> b \<Longrightarrow> \<not> prefix (a # as) (p @ b # r)"
  by (cases p) auto

lemma split_no_sep: "c \<notin> set s \<Longrightarrow> split c cs s = [s]"
  by (induction s) auto

lemma split_char_append: "split c [] (p @ c # r) = split c [] p @ split c [] r"
proof (induction p)
  case Nil
  show ?case by simp
next
  case (Cons x p)
  obtain w ws where w: "split c [] p = w # ws"
    using split_not_Nil[of c "[]" p] by (cases "split c [] p") auto
  show ?case using Cons w by (cases "x = c") auto
qed

lemma last_split_char_append: "last (split c [] (p @ c # r)) = last (split c [] r)"
  by (simp add: split_char_append split_not_Nil)

lemma split_comma_space_no_space:
  "CHR '' '' \<notin> set p \<Longrightarrow> split (CHR '','') '' '' p = [p]"
  by (induction p) (auto simp: not_prefix_Cons)

lemma split_comma_space_skip:
  "CHR '' '' \<notin> set p \<Longrightarrow>
   split (CHR '','') '' '' (p @ '', '' @ r) = p # split (CHR '','') '' '' r"
proof (induction p)
  case Nil
  show ?case by simp
next
  case (Cons x p)
  then have "\<not> prefix '' '' (p @ CHR '','' # CHR '' '' # r)"
    by (intro not_prefix_Cons_append) auto
  with Cons show ?case by simp
qed

lemma split_join:
  assumes "\<forall>p \<in> set ps. CHR '' '' \<notin> set p" and "CHR '' '' \<notin> set suf" and "ps \<noteq> []"
  shows "split (CHR '','') '' '' (join '', '' ps @ suf) = butlast ps @ [last ps @ suf]"
  using assms
proof (induction ps)
  case Nil
  then show ?case by simp
next
  case (Cons x ps)
  show ?case
  proof (cases ps)
    case Nil
    with Cons.prems show ?thesis by (simp add: split_comma_space_no_space)
  next
    case (Cons y ys)
    have "split (CHR '','') '' '' (x @ '', '' @ (join '', '' ps @ suf))
            = x # split (CHR '','') '' '' (join '', '' ps @ suf)"
      using Cons.prems by (intro split_comma_space_skip) simp
    moreover have "split (CHR '','') '' '' (join '', '' ps @ suf) = butlast ps @ [last ps @ suf]"
      using Cons.IH Cons.prems Cons by simp
    ultimately show ?thesis using Cons by simp
  qed
qed

lemma set_concat_split: "set (concat (split c cs s)) \<subseteq> set s"
proof (induction c cs s rule: split.induct)
  case (1 c cs)
  show ?case by simp
next
  case (2 c cs x xs)
  show ?case
  proof (cases "prefix (c # cs) (x # xs)")
    case True
    with 2 have "set (concat (split c cs (drop (length cs) xs))) \<subseteq> set (drop (length cs) xs)"
      by simp
    also have "\<dots> \<subseteq> set xs" by (rule set_drop_subset)
    finally show ?thesis using True by auto
  next
    case False
    obtain w ws where w: "split c cs xs = w # ws"
      using split_not_Nil[of c cs xs] by (cases "split c cs xs") auto
    have "set (concat (split c cs xs)) \<subseteq> set xs" using 2 False by simp
    then show ?thesis using False w by auto
  qed
qed

lemma replace_removes: "c \<notin> set (replace c [] s)"
  by (induction s) (auto simp: replace_def)

lemma parts_no_space:
  "p \<in> set (split (CHR '','') [] (replace (CHR '' '') [] mc)) \<Longrightarrow> CHR '' '' \<notin> set p"
  using set_concat_split[of "CHR '',''" "[]" "replace (CHR '' '') [] mc"] replace_removes[of "CHR '' ''" mc]
  by auto

lemma contains_iff: "contains s sub = (\<exists>pre suf. s = pre @ sub @ suf)"
proof (induction s)
  case Nil
  show ?case by auto
next
  case (Cons x xs)
  show ?case
  proof
    assume "contains (x # xs) sub"
    then consider "prefix sub (x # xs)" | "contains xs sub" by auto
    then show "\<exists>pre suf. x # xs = pre @ sub @ suf"
    proof cases
      case 1
      then obtain suf where "x # xs = sub @ suf" by (auto simp: prefix_def)
      then have "x # xs = [] @ sub @ suf" by simp
      then show ?thesis by blast
    next
      case 2
      with Cons obtain pre suf where "xs = pre @ sub @ suf" by blast
      then have "x # xs = (x # pre) @ sub @ suf" by simp
      then show ?thesis by blast
    qed
  next
    assume "\<exists>pre suf. x # xs = pre @ sub @ suf"
    then obtain pre suf where e: "x # xs = pre @ sub @ suf" by blast
    show "contains (x # xs) sub"
    proof (cases pre)
      case Nil
      with e have "prefix sub (x # xs)" by (simp add: prefix_def)
      then show ?thesis by simp
    next
      case (Cons y ys)
      with e have "xs = ys @ sub @ suf" by simp
      with Cons.IH show ?thesis by auto
    qed
  qed
qed

section \<open>Facts about the diagnostic message\<close>

lemma set_replace_subset: "set (replace c [] s) \<subseteq> set s"
  by (induction s) (auto simp: replace_def)

lemma set_join_subset: "set (join sep ps) \<subseteq> set sep \<union> set (concat ps)"
  by (induction sep ps rule: join.induct) auto

lemma set_missing_parts: "set (concat (missing_parts mc)) \<subseteq> set mc"
  using set_concat_split[of "CHR '',''" "[]" "replace (CHR '' '') [] mc"]
    set_replace_subset[of "CHR '' ''" mc]
  by (auto simp: missing_parts_def)

lemma missing_parts_not_Nil: "missing_parts mc \<noteq> []"
  by (simp add: missing_parts_def split_not_Nil)

lemma body_no_colon:
  assumes "CHR '':'' \<notin> set mc"
  shows "CHR '':'' \<notin> set (join '', '' (missing_parts mc) @ ''.'')"
  using assms set_join_subset[of "'', ''" "missing_parts mc"] set_missing_parts[of mc]
  by auto

lemma join_Cons_Cons: "join sep ((x # w) # ws) = x # join sep (w # ws)"
  by (cases ws) auto

lemma body_starts:
  assumes "replace (CHR '' '') [] mc = [] \<or> \<not> isspace (hd (replace (CHR '' '') [] mc))"
  shows "\<exists>b bs. join '', '' (missing_parts mc) @ ''.'' = b # bs \<and> \<not> isspace b"
proof (cases "replace (CHR '' '') [] mc")
  case Nil
  then show ?thesis by (simp add: missing_parts_def isspace_def)
next
  case (Cons x xs)
  with assms have nx: "\<not> isspace x" by simp
  obtain w ws where w: "split (CHR '','') [] xs = w # ws"
    using split_not_Nil[of "CHR '',''" "[]" xs] by (cases "split (CHR '','') [] xs") auto
  show ?thesis
  proof (cases "x = CHR '',''")
    case True
    then show ?thesis using Cons w by (simp add: missing_parts_def isspace_def)
  next
    case False
    then show ?thesis using Cons w nx by (simp add: missing_parts_def join_Cons_Cons)
  qed
qed

lemma strip_body:
  assumes "body @ ''.'' = b # bs" "\<not> isspace b"
  shows "strip (CHR '' '' # body @ ''.'') = body @ ''.''"
proof -
  have "dropWhile isspace (CHR '' '' # body @ ''.'') = body @ ''.''"
    using assms by (simp add: isspace_def)
  moreover have "dropWhile isspace (rev (body @ ''.'')) = rev (body @ ''.'')"
    by (simp add: isspace_def)
  ultimately show ?thesis by (simp add: strip_def)
qed

lemma last_segment:
  assumes "CHR '':'' \<notin> set body"
  shows "last (split (CHR '':'') []
           (''The provided text is incomplete. The following components are missing: '' @ body))
         = CHR '' '' # body"
proof -
  have "last (split (CHR '':'') []
           (''The provided text is incomplete. The following components are missing''
              @ CHR '':'' # (CHR '' '' # body)))
        = last (split (CHR '':'') [] (CHR '' '' # body))"
    by (rule last_split_char_append)
  moreover have "split (CHR '':'') [] (CHR '' '' # body) = [CHR '' '' # body]"
    using assms by (intro split_no_sep) simp
  ultimately show ?thesis by simp
qed

lemma parsed_incomplete_message:
  assumes "CHR '':'' \<notin> set mc"
    and "replace (CHR '' '') [] mc = [] \<or> \<not> isspace (hd (replace (CHR '' '') [] mc))"
  shows "split (CHR '','') '' '' (strip (last (split (CHR '':'') [] (incomplete_message mc))))
         = butlast (missing_parts mc) @ [last (missing_parts mc) @ ''.'']"
proof -
  let ?body = "join '', '' (missing_parts mc) @ ''.''"
  have seg: "last (split (CHR '':'') [] (incomplete_message mc)) = CHR '' '' # ?body"
    unfolding incomplete_message_def using body_no_colon[OF assms(1)] by (rule last_segment)
  obtain b bs where b: "?body = b # bs" "\<not> isspace b"
    using body_starts[OF assms(2)] by blast
  have "strip (CHR '' '' # ?body) = ?body"
    using b by (intro strip_body[of _ b bs]) simp_all
  moreover have "split (CHR '','') '' '' ?body
      = butlast (missing_parts mc) @ [last (missing_parts mc) @ ''.'']"
  proof (rule split_join)
    show "\<forall>p \<in> set (missing_parts mc). CHR '' '' \<notin> set p"
      using parts_no_space[of _ mc] by (simp add: missing_parts_def)
    show "CHR '' '' \<notin> set ''.''" by simp
    show "missing_parts mc \<noteq> []" by (rule missing_parts_not_Nil)
  qed
  ultimately show ?thesis using seg by simp
qed

section \<open>Facts about the loading loop\<close>

lemma filter_no_key:
  "map_of f k = None \<Longrightarrow> filter (\<lambda>(k', _). k' \<noteq> k) f = f"
  by (induction f) (auto split: if_splits)

lemma Example_plain:
  "map_of f ''self'' = None \<Longrightarrow> map_of f ''base'' = None \<Longrightarrow> Example (JObj f) = Inr f"
  by (simp add: Example_def has_key_def filter_no_key)

lemma Example_succeeds:
  "(\<exists>ex. Example x = Inr ex) = (\<exists>f. x = JObj f \<and> map_of f ''self'' = None)"
  by (cases x) (auto simp: Example_def has_key_def Let_def split: option.splits json.splits)

lemma Example_Inl: "Example x = Inl e \<Longrightarrow> e = TypeError"
  by (cases x) (auto simp: Example_def Let_def split: option.splits json.splits if_splits)

lemma load_loop_succeeds:
  "(\<exists>ts. load_loop xs acc = Inr ts) = (\<forall>x \<in> set xs. \<exists>ex. Example x = Inr ex)"
proof (induction xs arbitrary: acc)
  case Nil
  show ?case by simp
next
  case (Cons x xs)
  show ?case
  proof (cases "Example x")
    case (Inl e)
    then show ?thesis by auto
  next
    case (Inr ex)
    then show ?thesis using Cons[of "acc @ [ex]"] by simp
  qed
qed

lemma load_loop_plain:
  "\<forall>f \<in> set es. map_of f ''self'' = None \<and> map_of f ''base'' = None \<Longrightarrow>
   load_loop (map JObj es) acc = Inr (acc @ es)"
  by (induction es arbitrary: acc) (simp_all add: Example_plain)

lemma load_loop_first_failure:
  "\<forall>y \<in> set pre. \<exists>ex. Example y = Inr ex \<Longrightarrow> Example x = Inl e \<Longrightarrow>
   load_loop (pre @ x # rest) acc = Inl e"
  by (induction pre arbitrary: acc) auto

section \<open>Facts about failures\<close>

lemma load_trainset_raises:
  "(json_load json_file_path = Inl e
      \<longrightarrow> load_trainset json_load json_file_path = Inl e)
   \<and> (json_load json_file_path = Inr data \<and> (\<forall>items. data \<noteq> JObj items)
      \<longrightarrow> load_trainset json_load json_file_path = Inl TypeError)
   \<and> (json_load json_file_path = Inr (JObj items) \<and> map_of items ''samples'' = None
      \<longrightarrow> load_trainset json_load json_file_path = Inl (KeyError ''samples''))
   \<and> (json_load json_file_path = Inr (JObj items) \<and> map_of items ''samples'' = Some samples
        \<and> iter samples = Inl e
      \<longrightarrow> load_trainset json_load json_file_path = Inl e)
   \<and> (json_load json_file_path = Inr (JObj items) \<and> map_of items ''samples'' = Some samples
        \<and> iter samples = Inr (pre @ sample # rest)
        \<and> (\<forall>y \<in> set pre. \<exists>ex. Example y = Inr ex) \<and> Example sample = Inl e
      \<longrightarrow> load_trainset json_load json_file_path = Inl e)"
proof (intro conjI impI)
  assume "json_load json_file_path = Inl e"
  then show "load_trainset json_load json_file_path = Inl e"
    by (simp add: load_trainset_def)
next
  assume "json_load json_file_path = Inr data \<and> (\<forall>items. data \<noteq> JObj items)"
  then show "load_trainset json_load json_file_path = Inl TypeError"
    by (cases data) (simp_all add: load_trainset_def subscript_def)
next
  assume "json_load json_file_path = Inr (JObj items) \<and> map_of items ''samples'' = None"
  then show "load_trainset json_load json_file_path = Inl (KeyError ''samples'')"
    by (simp add: load_trainset_def subscript_def getitem_def)
next
  assume "json_load json_file_path = Inr (JObj items) \<and> map_of items ''samples'' = Some samples
        \<and> iter samples = Inl e"
  then show "load_trainset json_load json_file_path = Inl e"
    by (simp add: load_trainset_def subscript_def getitem_def)
next
  assume "json_load json_file_path = Inr (JObj items) \<and> map_of items ''samples'' = Some samples
        \<and> iter samples = Inr (pre @ sample # rest)
        \<and> (\<forall>y \<in> set pre. \<exists>ex. Example y = Inr ex) \<and> Example sample = Inl e"
  then show "load_trainset json_load json_file_path = Inl e"
    by (simp add: load_trainset_def subscript_def getitem_def load_loop_first_failure)
qed

lemma load_loop_Inl:
  "load_loop xs acc = Inl e \<Longrightarrow>
   \<exists>pre sample rest. xs = pre @ sample # rest
      \<and> (\<forall>y \<in> set pre. \<exists>ex. Example y = Inr ex) \<and> Example sample = Inl e"
proof (induction xs arbitrary: acc)
  case Nil
  then show ?case by simp
next
  case (Cons x xs)
  show ?case
  proof (cases "Example x")
    case (Inl e')
    with Cons.prems have "e' = e" by simp
    with Inl have "x # xs = [] @ x # xs \<and> (\<forall>y \<in> set []. \<exists>ex. Example y = Inr ex)
        \<and> Example x = Inl e" by simp
    then show ?thesis by blast
  next
    case (Inr ex)
    with Cons.prems have "load_loop xs (acc @ [ex]) = Inl e" by simp
    from Cons.IH [OF this] obtain pre sample rest where
      p: "xs = pre @ sample # rest" "\<forall>y \<in> set pre. \<exists>ex. Example y = Inr ex"
         "Example sample = Inl e" by blast
    with Inr have "x # xs = (x # pre) @ sample # rest
        \<and> (\<forall>y \<in> set (x # pre). \<exists>ex. Example y = Inr ex) \<and> Example sample = Inl e"
      by simp
    then show ?thesis by blast
  qed
qed

lemma load_trainset_raises_only:
  assumes "load_trainset json_load json_file_path = Inl e"
  shows "json_load json_file_path = Inl e
   \<or> (\<exists>data. json_load json_file_path = Inr data \<and> (\<forall>items. data \<noteq> JObj items)
         \<and> e = TypeError)
   \<or> (\<exists>items. json_load json_file_path = Inr (JObj items) \<and> map_of items ''samples'' = None
         \<and> e = KeyError ''samples'')
   \<or> (\<exists>items samples. json_load json_file_path = Inr (JObj items)
         \<and> map_of items ''samples'' = Some samples \<and> iter samples = Inl e)
   \<or> (\<exists>items samples pre sample rest. json_load json_file_path = Inr (JObj items)
         \<and> map_of items ''samples'' = Some samples \<and> iter samples = Inr (pre @ sample # rest)
         \<and> (\<forall>y \<in> set pre. \<exists>ex. Example y = Inr ex) \<and> Example sample = Inl e)"
proof (cases "json_load json_file_path")
  case (Inl e')
  with assms show ?thesis by (simp add: load_trainset_def)
next
  case (Inr data)
  show ?thesis
  proof (cases "\<exists>items. data = JObj items")
    case False
    with Inr assms have "e = TypeError"
      by (cases data) (simp_all add: load_trainset_def subscript_def)
    with Inr False show ?thesis by simp
  next
    case True
    then obtain items where d: "data = JObj items" by blast
    show ?thesis
    proof (cases "map_of items ''samples''")
      case None
      with Inr d assms have "e = KeyError ''samples''"
        by (simp add: load_trainset_def subscript_def getitem_def)
      with Inr d None show ?thesis by simp
    next
      case (Some samples)
      show ?thesis
      proof (cases "iter samples")
        case (Inl e')
        with Inr d Some assms have "e' = e"
          by (simp add: load_trainset_def subscript_def getitem_def)
        with Inr d Some Inl show ?thesis by simp
      next
        case xs: (Inr xs)
        with Inr d Some assms have "load_loop xs [] = Inl e"
          by (simp add: load_trainset_def subscript_def getitem_def)
        from load_loop_Inl [OF this] obtain pre sample rest where
          "xs = pre @ sample # rest" "\<forall>y \<in> set pre. \<exists>ex. Example y = Inr ex"
          "Example sample = Inl e" by blast
        with Inr d Some xs show ?thesis by blast
      qed
    qed
  qed
qed

lemma exact_match_call_eq:
  "exact_match_call answer_exact_match field example k
     = (case map_of example k of
          None \<Rightarrow> Inl (KeyError k)
        | Some v \<Rightarrow> answer_exact_match field v)"
  by (simp add: exact_match_call_def getitem_def split: option.splits)

lemma completeness_classifier_loop_Inl:
  "(completeness_classifier_loop demos = Inl e)
     = (e = AttributeError
        \<and> (\<exists>demo \<in> set demos. map_of demo ''text'' = None
               \<or> map_of demo ''missing_components'' = None))"
  by (induction demos) (auto simp: getattr_def split: option.splits)

lemma structure_extractor_loop_Inl:
  "(structure_extractor_loop demos = Inl e)
     = (e = AttributeError
        \<and> (\<exists>demo \<in> set demos. map_of demo ''context'' = None
               \<or> map_of demo ''topic_sentence'' = None \<or> map_of demo ''evidence'' = None
               \<or> map_of demo ''analysis'' = None
               \<or> map_of demo ''tieback_or_transition'' = None))"
  by (induction demos) (auto simp: getattr_def split: option.splits)

lemma print_full_prompt_Inl:
  "(print_full_prompt compiled_module = Inl e)
     = (e = AttributeError
        \<and> ((\<exists>demo \<in> set (or_empty (completeness_classifier_demos compiled_module)).
               map_of demo ''text'' = None \<or> map_of demo ''missing_components'' = None)
           \<or> (\<exists>demo \<in> set (or_empty (structure_extractor_demos compiled_module)).
               map_of demo ''context'' = None \<or> map_of demo ''topic_sentence'' = None
               \<or> map_of demo ''evidence'' = None \<or> map_of demo ''analysis'' = None
               \<or> map_of demo ''tieback_or_transition'' = None)))"
proof (cases "completeness_classifier_loop
                (or_empty (completeness_classifier_demos compiled_module))")
  case (Inl e')
  then show ?thesis
    using completeness_classifier_loop_Inl
      [of "or_empty (completeness_classifier_demos compiled_module)" e']
    by (auto simp: print_full_prompt_def)
next
  case (Inr u)
  then have "\<not> (\<exists>demo \<in> set (or_empty (completeness_classifier_demos compiled_module)).
               map_of demo ''text'' = None \<or> map_of demo ''missing_components'' = None)"
    using completeness_classifier_loop_Inl
      [of "or_empty (completeness_classifier_demos compiled_module)" AttributeError]
    by simp
  with Inr show ?thesis
    by (auto simp: print_full_prompt_def structure_extractor_loop_Inl)
qed

section \<open>Facts about the command line\<close>

lemma parser_eq: "parser = [help_action, json_file_action, optimizer_action]"
  by (simp add: parser_def add_argument_def ArgumentParser_def help_action_def
      json_file_action_def optimizer_action_def)

lemma option_string_actions_parser:
  "option_string_actions parser =
     [(''-h'', help_action), (''--help'', help_action), (''--optimizer'', optimizer_action)]"
  by (simp add: parser_eq option_string_actions_def help_action_def optimizer_action_def
      json_file_action_def)

lemma parse_optional_plain: "\<not> prefix ''-'' s \<Longrightarrow> parse_optional parser s = Inr Arg"
  by (cases s) (auto simp: parse_optional_def)

lemma classify_plain: "\<not> prefix ''-'' s \<Longrightarrow> classify parser [s] = Inr [(Arg, s)]"
  by (cases s) (auto simp: parse_optional_plain)

lemma parse_one:
  assumes "\<not> prefix ''-'' path"
  shows "parse_args parser [path]
         = Inr [(''json_file'', PyStr path), (''optimizer'', PyStr ''MIPROv2'')]"
proof -
  have ne: "path \<noteq> ''--''" using assms by auto
  have "consume parser [(Arg, path)]
          \<lparr> namespace = [(''json_file'', PyNone), (''optimizer'', PyStr ''MIPROv2'')],
            positionals = [json_file_action], seen_actions = [], extras = [] \<rparr>
        = Inr \<lparr> namespace = [(''json_file'', PyStr path), (''optimizer'', PyStr ''MIPROv2'')],
            positionals = [], seen_actions = [json_file_action], extras = [] \<rparr>"
    using ne
    by (subst consume.simps)
       (simp add: is_option_def consume_positionals_def match_positional_def take_action_def
          get_values_def check_value_def json_file_action_def setattr_def)
  then show ?thesis
    using classify_plain[OF assms]
    by (simp add: parse_args_def parser_eq help_action_def json_file_action_def optimizer_action_def)
qed

lemmas acts = help_action_def json_file_action_def optimizer_action_def

lemma parse_optional_optimizer:
  "parse_optional parser ''--optimizer'' = Inr (Opt (Some optimizer_action) ''--optimizer'' None None)"
  by (simp add: parse_optional_def option_string_actions_parser)

lemma parse_optional_exit: "parse_optional parser s = Inl e \<Longrightarrow> e = SystemExit 2"
  by (auto simp: parse_optional_def Let_def split: if_splits option.splits prod.splits)

lemma classify_exit: "classify parser args = Inl e \<Longrightarrow> e = SystemExit 2"
  by (induction args) (auto split: if_splits sum.splits dest: parse_optional_exit)

lemma action_fields [simp]:
  "option_strings help_action = [''-h'', ''--help'']" "dest help_action = ''help''"
  "kind help_action = Help" "choices help_action = None" "default_value help_action = None"
  "required help_action = False"
  "option_strings json_file_action = []" "dest json_file_action = ''json_file''"
  "kind json_file_action = Store" "choices json_file_action = None"
  "default_value json_file_action = Some PyNone" "required json_file_action = True"
  "option_strings optimizer_action = [''--optimizer'']" "dest optimizer_action = ''optimizer''"
  "kind optimizer_action = Store"
  "choices optimizer_action = Some [''BootstrapFewShot'', ''MIPROv2'']"
  "default_value optimizer_action = Some (PyStr ''MIPROv2'')" "required optimizer_action = False"
  by (simp_all add: acts)

lemma match_arguments_partial_Nil [simp]: "match_arguments_partial n [] = []"
  by (cases n) (simp_all add: match_positional_def)

lemma consume_positionals_Nil [simp]: "consume_positionals [] st = Inr (0, st)"
  by (simp add: consume_positionals_def)

lemma consume_Nil [simp]: "consume ps [] st = Inr st"
  by (subst consume.simps) simp

lemma parse_args_parser:
  "parse_args parser args =
     (case classify parser args of
        Inl e \<Rightarrow> Inl e
      | Inr items \<Rightarrow>
          (case consume parser items initial_state of
             Inl e \<Rightarrow> Inl e
           | Inr st \<Rightarrow>
               if json_file_action \<notin> set (seen_actions st) then Inl (SystemExit 2)
               else if extras st \<noteq> [] then Inl (SystemExit 2)
               else Inr (namespace st)))"
  by (simp add: parse_args_def parser_eq initial_state_def cong: sum.case_cong)

lemma take_json:
  "s \<noteq> ''--'' \<Longrightarrow> take_action json_file_action [s] st
     = Inr (st\<lparr> seen_actions := seen_actions st @ [json_file_action],
               namespace := setattr (namespace st) ''json_file'' (PyStr s) \<rparr>)"
  by (simp add: take_action_def get_values_def check_value_def json_file_action_def)

lemma take_optimizer:
  "take_action optimizer_action [v] st
     = (if v = ''BootstrapFewShot'' \<or> v = ''MIPROv2''
        then Inr (st\<lparr> seen_actions := seen_actions st @ [optimizer_action],
               namespace := setattr (namespace st) ''optimizer'' (PyStr v) \<rparr>)
        else Inl (SystemExit 2))"
  by (simp add: take_action_def get_values_def check_value_def optimizer_action_def)

lemma take_help: "take_action help_action args st = Inl (SystemExit 0)"
  by (simp add: take_action_def get_values_def check_value_def list_all_iff)

lemma consume_positional_then:
  assumes "s \<noteq> ''--''" and "is_option x"
  shows "consume parser ((Arg, s) # x # rest) initial_state
         = consume parser (x # rest)
             (initial_state\<lparr> seen_actions := [json_file_action],
                  namespace := setattr (namespace initial_state) ''json_file'' (PyStr s),
                  positionals := [] \<rparr>)"
proof -
  have m: "match_positional ((Arg, s) # x # rest) = Some 1"
    using assms(2) by (cases x) (auto simp: match_positional_def is_option_def split: token.splits)
  have c: "consume_positionals ((Arg, s) # x # rest) initial_state
        = Inr (1, initial_state\<lparr> seen_actions := [json_file_action],
                  namespace := setattr (namespace initial_state) ''json_file'' (PyStr s),
                  positionals := [] \<rparr>)"
    using m assms(1) by (simp add: consume_positionals_def initial_state_def take_json)
  show ?thesis
    using assms(2) c by (subst consume.simps) (simp add: is_option_def)
qed

lemma parse_with_optimizer:
  assumes "\<not> prefix ''-'' path"
  shows "parse_args parser [path, ''--optimizer'', v]
         = (if v = ''BootstrapFewShot'' \<or> v = ''MIPROv2''
            then Inr [(''optimizer'', PyStr v), (''json_file'', PyStr path)]
            else Inl (SystemExit 2))"
proof -
  have ne: "path \<noteq> ''--''" using assms by auto
  let ?o = "Opt (Some optimizer_action) ''--optimizer'' None None"
  let ?st1 = "initial_state\<lparr> seen_actions := [json_file_action],
                  namespace := setattr (namespace initial_state) ''json_file'' (PyStr path),
                  positionals := [] \<rparr>"
  have cl: "classify parser [path, ''--optimizer'', v]
        = (if v = ''--'' then Inr [(Arg, path), (?o, ''--optimizer''), (DashDash, v)]
           else case parse_optional parser v of
                  Inl e \<Rightarrow> Inl e
                | Inr t \<Rightarrow> Inr [(Arg, path), (?o, ''--optimizer''), (t, v)])"
    using ne parse_optional_plain[OF assms] by (simp add: parse_optional_optimizer split: sum.splits)
  have run: "consume parser [(Arg, path), (?o, ''--optimizer''), (t, v)] initial_state
        = (if t = Arg \<and> (v = ''BootstrapFewShot'' \<or> v = ''MIPROv2'')
           then Inr (?st1\<lparr> seen_actions := [json_file_action, optimizer_action],
                     namespace := setattr (namespace ?st1) ''optimizer'' (PyStr v) \<rparr>)
           else Inl (SystemExit 2))" for t
  proof -
    have 1: "consume parser [(Arg, path), (?o, ''--optimizer''), (t, v)] initial_state
           = consume parser [(?o, ''--optimizer''), (t, v)] ?st1"
      using ne by (intro consume_positional_then) (simp_all add: is_option_def)
    note 2 = consume_Nil
    have 3: "optional_loop parser optimizer_action ''--optimizer'' None None [(t, v)] []
          = (if t = Arg then Inr ([(optimizer_action, [v])], [], 1) else Inl (SystemExit 2))"
      by (subst optional_loop.simps) (simp add: optimizer_action_def split: token.splits)
    have "consume parser [(?o, ''--optimizer''), (t, v)] ?st1
        = (if t = Arg \<and> (v = ''BootstrapFewShot'' \<or> v = ''MIPROv2'')
           then Inr (?st1\<lparr> seen_actions := [json_file_action, optimizer_action],
                     namespace := setattr (namespace ?st1) ''optimizer'' (PyStr v) \<rparr>)
           else Inl (SystemExit 2))"
      by (subst consume.simps)
         (simp add: is_option_def consume_optional_def 3 take_optimizer 2 initial_state_def)
    with 1 show ?thesis by simp
  qed
  show ?thesis
  proof (cases "v = ''BootstrapFewShot'' \<or> v = ''MIPROv2''")
    case True
    then have "parse_optional parser v = Inr Arg"
      by (auto simp: parse_optional_def)
    with True cl run[of Arg] show ?thesis
      by (auto simp: parse_args_parser initial_state_def setattr_def acts)
  next
    case False
    show ?thesis
    proof (cases "classify parser [path, ''--optimizer'', v]")
      case (Inl e)
      then show ?thesis using False classify_exit[OF Inl] by (simp add: parse_args_parser)
    next
      case (Inr items)
      then obtain t where "items = [(Arg, path), (?o, ''--optimizer''), (t, v)]"
        using cl by (auto split: if_splits sum.splits)
      with Inr False run[of t] show ?thesis by (simp add: parse_args_parser)
    qed
  qed
qed

lemma parse_nothing: "parse_args parser [] = Inl (SystemExit 2)"
proof -
  show ?thesis by (simp add: parse_args_parser consume_Nil initial_state_def)
qed

lemma parse_two:
  assumes "\<not> prefix ''-'' p" and "\<not> prefix ''-'' q"
  shows "parse_args parser [p, q] = Inl (SystemExit 2)"
proof -
  have ne: "p \<noteq> ''--''" using assms by auto
  have cl: "classify parser [p, q] = Inr [(Arg, p), (Arg, q)]"
    using assms ne by (auto simp: parse_optional_plain)
  have "consume parser [(Arg, p), (Arg, q)] initial_state
        = Inr (initial_state\<lparr> seen_actions := [json_file_action],
                  namespace := setattr (namespace initial_state) ''json_file'' (PyStr p),
                  positionals := [], extras := [q] \<rparr>)"
    using ne
    by (subst consume.simps)
       (simp add: is_option_def consume_positionals_def match_positional_def take_json initial_state_def)
  with cl show ?thesis by (simp add: parse_args_parser initial_state_def)
qed

lemma map_of_setattr: "map_of (setattr ns d v) k = (if k = d then Some v else map_of ns k)"
  by (induction ns) (auto simp: setattr_def)

lemma lookup_parser:
  "map_of (option_string_actions parser) os = Some a \<Longrightarrow> a = help_action \<or> a = optimizer_action"
  by (auto simp: option_string_actions_parser split: if_splits)

lemma get_option_tuples_ok: "t \<in> set (get_option_tuples parser s) \<Longrightarrow> token_ok t"
  by (auto simp: get_option_tuples_def option_string_actions_parser token_ok_def
      split: if_splits prod.splits)

lemma get_option_tuples_hd:
  assumes "length (get_option_tuples parser s) = Suc 0"
  shows "token_ok (hd (get_option_tuples parser s))"
    and "hd (get_option_tuples parser s) \<noteq> DashDash"
proof -
  have h: "hd (get_option_tuples parser s) \<in> set (get_option_tuples parser s)"
    using assms by (cases "get_option_tuples parser s") auto
  then show "token_ok (hd (get_option_tuples parser s))" by (rule get_option_tuples_ok)
  then show "hd (get_option_tuples parser s) \<noteq> DashDash"
    using h by (auto simp: get_option_tuples_def split: if_splits prod.splits)
qed

lemma parse_optional_ok: "parse_optional parser s = Inr t \<Longrightarrow> token_ok t \<and> t \<noteq> DashDash"
  by (auto simp: parse_optional_def Let_def token_ok_def[of Arg] token_ok_def[of "Opt None _ _ _"]
        token_ok_def[of "Opt (Some _) _ _ _"] get_option_tuples_hd
        split: if_splits option.splits prod.splits
        dest!: lookup_parser)

lemma classify_ok:
  "classify parser args = Inr items \<Longrightarrow>
     shape items \<and> list_all (\<lambda>i. token_ok (fst i)) items \<and> map snd items = args"
proof (induction args arbitrary: items)
  case Nil
  then show ?case by simp
next
  case (Cons s args)
  show ?case
  proof (cases "s = ''--''")
    case True
    with Cons.prems have "items = (DashDash, s) # map (\<lambda>s. (Arg, s)) args" by simp
    then show ?thesis using True
      by (simp add: list_all_iff token_ok_def comp_def)
  next
    case False
    with Cons.prems obtain t ts where t: "parse_optional parser s = Inr t"
      and ts: "classify parser args = Inr ts" and i: "items = (t, s) # ts"
      by (auto split: sum.splits)
    from parse_optional_ok[OF t] have "token_ok t" "t \<noteq> DashDash" by simp_all
    moreover from Cons.IH[OF ts] have "shape ts" "list_all (\<lambda>i. token_ok (fst i)) ts" "map snd ts = args"
      by simp_all
    ultimately show ?thesis using i False by (cases t) simp_all
  qed
qed

lemma tuple_ok_simps [simp]:
  "tuple_ok (help_action, args)"
  "tuple_ok (optimizer_action, args) = (length args = 1)"
  by (auto simp: tuple_ok_def acts)

lemma optional_loop_ok:
  assumes closed: "known_actions ps"
  shows "a = help_action \<or> a = optimizer_action \<Longrightarrow> list_all tuple_ok acc \<Longrightarrow>
         optional_loop ps a os sep ex following acc = Inr (tuples, more_extras, k) \<Longrightarrow>
         list_all tuple_ok tuples \<and> k \<le> 1 \<and> (k = 1 \<longrightarrow> (\<exists>s r. following = (Arg, s) # r))"
  using closed
proof (induction ps a os sep ex following acc rule: optional_loop.induct)
  case (1 ps action option_string sep explicit_arg following action_tuples)
  note act = "1.prems"(1) and acc = "1.prems"(2) and run = "1.prems"(3) and closed = "1.prems"(4)
  show ?case
  proof (cases explicit_arg)
    case None
    show ?thesis
    proof (cases "kind action")
      case Store
      with act have "action = optimizer_action" by auto
      with run None Store acc show ?thesis
        by (subst (asm) optional_loop.simps)
           (auto split: list.splits prod.splits token.splits)
    next
      case Help
      with act have "action = help_action" by auto
      with run None Help acc show ?thesis
        by (subst (asm) optional_loop.simps) auto
    qed
  next
    case (Some ex)
    show ?thesis
    proof (cases "kind action = Help \<and> take 1 (drop 1 option_string) \<noteq> ''-'' \<and> ex \<noteq> []")
      case False
      with run Some act acc show ?thesis
        by (subst (asm) optional_loop.simps) (auto split: if_splits)
    next
      case True
      with act have h: "action = help_action" by auto
      have acc': "list_all tuple_ok (action_tuples @ [(action, [])])"
        using acc h by simp
      from run Some True have noerr: "\<not> ((sep \<noteq> None \<and> sep \<noteq> Some []) \<or> hd ex = CHR ''-'')"
        by (subst (asm) optional_loop.simps) (auto split: if_splits)
      show ?thesis
      proof (cases "map_of (option_string_actions ps) [CHR ''-'', hd ex]")
        case None
        with run Some True noerr acc' show ?thesis
          by (subst (asm) optional_loop.simps) (auto split: if_splits)
      next
        case (Some action')
        then have a': "action' = help_action \<or> action' = optimizer_action"
          using closed by (auto simp: known_actions_def)
        consider "tl ex = []" | "tl ex \<noteq> []" "hd (tl ex) = CHR ''=''"
          | "tl ex \<noteq> []" "hd (tl ex) \<noteq> CHR ''=''" by blast
        then show ?thesis
        proof cases
          case 1
          have "optional_loop ps action' [CHR ''-'', hd ex] None None following
                  (action_tuples @ [(action, [])]) = Inr (tuples, more_extras, k)"
            using run \<open>explicit_arg = Some ex\<close> True noerr Some 1
            by (subst (asm) optional_loop.simps) (simp split: if_splits)
          from "1.IH"(1)[OF \<open>explicit_arg = Some ex\<close> True noerr Some 1 a' acc' this closed]
          show ?thesis by simp
        next
          case 2
          have "optional_loop ps action' [CHR ''-'', hd ex] (Some ''='') (Some (tl (tl ex))) following
                  (action_tuples @ [(action, [])]) = Inr (tuples, more_extras, k)"
            using run \<open>explicit_arg = Some ex\<close> True noerr Some 2
            by (subst (asm) optional_loop.simps) (simp split: if_splits)
          from "1.IH"(2)[OF \<open>explicit_arg = Some ex\<close> True noerr Some 2 a' acc' this closed]
          show ?thesis by simp
        next
          case 3
          have "optional_loop ps action' [CHR ''-'', hd ex] (Some []) (Some (tl ex)) following
                  (action_tuples @ [(action, [])]) = Inr (tuples, more_extras, k)"
            using run \<open>explicit_arg = Some ex\<close> True noerr Some 3
            by (subst (asm) optional_loop.simps) (simp split: if_splits)
          from "1.IH"(3)[OF \<open>explicit_arg = Some ex\<close> True noerr Some 3 a' acc' this closed]
          show ?thesis by simp
        qed
      qed
    qed
  qed
qed

lemma parse_inv_extras [simp]: "parse_inv S (st\<lparr> extras := e \<rparr>) = parse_inv S st"
  by (simp add: parse_inv_def json_file_ok_def)

lemma json_neq_optimizer: "json_file_action \<noteq> optimizer_action"
  by (simp add: acts)

lemma take_actions_ok:
  "list_all tuple_ok tuples \<Longrightarrow> take_actions tuples st = Inr st' \<Longrightarrow> parse_inv S st \<Longrightarrow>
   parse_inv S st' \<and> positionals st' = positionals st"
proof (induction tuples arbitrary: st)
  case Nil
  then show ?case by simp
next
  case (Cons tu tuples)
  obtain a args where tu: "tu = (a, args)" by (cases tu)
  from Cons.prems(1) tu have "a = help_action \<or> (a = optimizer_action \<and> length args = 1)"
    by (simp add: tuple_ok_def)
  then show ?case
  proof
    assume "a = help_action"
    with Cons.prems(2) tu show ?thesis by (simp add: take_help)
  next
    assume o: "a = optimizer_action \<and> length args = 1"
    then obtain v where v: "args = [v]" by (cases args) auto
    from Cons.prems(2) tu o v
    have ok: "v = ''BootstrapFewShot'' \<or> v = ''MIPROv2''"
      and rest: "take_actions tuples
          (st\<lparr> seen_actions := seen_actions st @ [optimizer_action],
               namespace := setattr (namespace st) ''optimizer'' (PyStr v) \<rparr>) = Inr st'"
      by (auto simp: take_optimizer split: if_splits)
    have "parse_inv S (st\<lparr> seen_actions := seen_actions st @ [optimizer_action],
               namespace := setattr (namespace st) ''optimizer'' (PyStr v) \<rparr>)"
      using Cons.prems(3) ok json_neq_optimizer
      by (auto simp: parse_inv_def optimizer_ok_def json_file_ok_def map_of_setattr)
    from Cons.IH[OF _ rest this] Cons.prems(1) show ?thesis by simp
  qed
qed

lemma consume_optional_ok:
  assumes closed: "known_actions ps"
    and "token_ok t" and "consume_optional ps t s following st = Inr (k, st')" and "parse_inv S st"
  shows "parse_inv S st' \<and> positionals st' = positionals st
         \<and> k \<le> 1 \<and> (k = 1 \<longrightarrow> (\<exists>x r. following = (Arg, x) # r))"
proof (cases t)
  case Arg
  with assms show ?thesis by (simp add: consume_optional_def)
next
  case DashDash
  with assms show ?thesis by (simp add: consume_optional_def)
next
  case (Opt ao os sep ex)
  show ?thesis
  proof (cases ao)
    case None
    with Opt assms show ?thesis by (auto simp: consume_optional_def)
  next
    case (Some a)
    with Opt assms(2) have a: "a = help_action \<or> a = optimizer_action"
      by (simp add: token_ok_def)
    from assms(3) Opt Some obtain tuples more_extras where
      l: "optional_loop ps a os sep ex following [] = Inr (tuples, more_extras, k)"
      and t: "take_actions tuples (st\<lparr> extras := extras st @ more_extras \<rparr>) = Inr st'"
      by (auto simp: consume_optional_def split: sum.splits prod.splits)
    from optional_loop_ok[OF closed a _ l]
    have ok: "list_all tuple_ok tuples" and k: "k \<le> 1" "k = 1 \<longrightarrow> (\<exists>x r. following = (Arg, x) # r)"
      by simp_all
    from take_actions_ok[OF ok t] assms(4) k show ?thesis by simp
  qed
qed

lemma positional_args:
  "shape items \<Longrightarrow> match_positional items = Some c \<Longrightarrow>
   0 < c \<and> (\<exists>p. remove1 ''--'' (take c (map snd items)) = [p] \<and> p \<in> snd ` set items)"
proof (induction items rule: shape.induct)
  case 1
  then show ?case by (simp add: match_positional_def)
next
  case (2 s rest)
  then have all: "list_all (\<lambda>(t, _). t = Arg) rest" and s: "s = ''--''" by simp_all
  show ?case
  proof (cases rest)
    case Nil
    with 2 show ?thesis by (simp add: match_positional_def)
  next
    case (Cons x after)
    with all obtain y where x: "x = (Arg, y)" by (cases x) auto
    from all Cons have "takeWhile (\<lambda>(t, _). t = DashDash) after = []"
      by (cases after) auto
    with 2 Cons x s show ?thesis
      by (auto simp: match_positional_def)
  qed
next
  case (3 s rest)
  then have s: "s \<noteq> ''--''" and sh: "shape rest" by simp_all
  have tw: "takeWhile (\<lambda>(t, _). t = DashDash) rest = []
         \<or> (\<exists>r. rest = (DashDash, ''--'') # r
               \<and> takeWhile (\<lambda>(t, _). t = DashDash) rest = [(DashDash, ''--'')])"
  proof (cases rest)
    case Nil
    then show ?thesis by simp
  next
    case (Cons x r)
    obtain t u where x: "x = (t, u)" by (cases x)
    show ?thesis
    proof (cases t)
      case DashDash
      with sh Cons x have "u = ''--''" and a: "list_all (\<lambda>(t, _). t = Arg) r" by simp_all
      from a have "takeWhile (\<lambda>(t, _). t = DashDash) r = []" by (cases r) auto
      with Cons x DashDash \<open>u = ''--''\<close> show ?thesis by simp
    qed (use Cons x in simp_all)
  qed
  from tw "3.prems" s show ?case
    by (auto simp: match_positional_def)
next
  case (4 a os sep ex s rest)
  then show ?case by (simp add: match_positional_def)
qed

lemma take_json_general:
  "remove1 ''--'' args = [p] \<Longrightarrow> take_action json_file_action args st
     = Inr (st\<lparr> seen_actions := seen_actions st @ [json_file_action],
               namespace := setattr (namespace st) ''json_file'' (PyStr p) \<rparr>)"
  by (simp add: take_action_def get_values_def check_value_def)

lemma consume_positionals_ok:
  assumes "parse_inv S st" and "positionals st \<noteq> [] \<longrightarrow> shape items" and "snd ` set items \<subseteq> S"
    and "consume_positionals items st = Inr (n, st')"
  shows "parse_inv S st' \<and> (n = 0 \<longrightarrow> st' = st) \<and> (0 < n \<longrightarrow> positionals st' = [])"
proof (cases "positionals st")
  case Nil
  then have "st\<lparr> positionals := [] \<rparr> = st" by simp
  with Nil assms(4) show ?thesis using assms(1) by (auto simp: consume_positionals_def)
next
  case (Cons a as)
  with assms(1) have p: "positionals st = [json_file_action]" by (auto simp: parse_inv_def)
  with assms(2) have sh: "shape items" by simp
  have one: "match_arguments_partial (Suc 0) items
        = (case match_positional items of None \<Rightarrow> [] | Some c \<Rightarrow> [c])"
    by (simp split: option.splits)
  show ?thesis
  proof (cases "match_positional items")
    case None
    have "st\<lparr> positionals := [json_file_action] \<rparr> = st" using p by simp
    with None assms(4) p one show ?thesis using assms(1)
      by (auto simp: consume_positionals_def)
  next
    case (Some c)
    from positional_args[OF sh Some] obtain q where
      c: "0 < c" and q: "remove1 ''--'' (take c (map snd items)) = [q]" and qs: "q \<in> snd ` set items"
      by blast
    from assms(4) p one Some take_json_general[OF q, of st]
    have n: "n = c" and st': "st' = st\<lparr> seen_actions := seen_actions st @ [json_file_action],
               namespace := setattr (namespace st) ''json_file'' (PyStr q),
               positionals := [] \<rparr>"
      by (auto simp: consume_positionals_def)
    have "parse_inv S st'"
      using assms(1,3) qs unfolding st'
      by (auto simp: parse_inv_def optimizer_ok_def json_file_ok_def map_of_setattr)
    with n c st' show ?thesis by simp
  qed
qed

lemma shape_drop_nonoption:
  "shape items \<Longrightarrow> shape (drop (length (takeWhile (\<lambda>i. \<not> is_option i) items)) items)"
proof (induction items rule: shape.induct)
  case 1
  show ?case by simp
next
  case (2 s rest)
  then have "\<forall>i \<in> set ((DashDash, s) # rest). \<not> is_option i"
    by (auto simp: list_all_iff is_option_def)
  then have "takeWhile (\<lambda>i. \<not> is_option i) ((DashDash, s) # rest) = (DashDash, s) # rest"
    by (intro takeWhile_eq_all_conv[THEN iffD2]) simp
  then show ?case by simp
next
  case (3 s rest)
  then show ?case by (simp add: is_option_def)
next
  case (4 a os sep ex s rest)
  then show ?case by (simp add: is_option_def)
qed

lemma shape_after_option: "shape ((t, s) # following) \<Longrightarrow> is_option (t, s) \<Longrightarrow> shape following"
  by (cases t) (simp_all add: is_option_def)

lemma drop_takeWhile_hd:
  assumes "list_ex P xs"
  shows "\<exists>x rest. drop (length (takeWhile (\<lambda>i. \<not> P i) xs)) xs = x # rest \<and> P x"
  using assms
proof (induction xs)
  case Nil
  then show ?case by simp
next
  case (Cons y ys)
  then show ?case by (cases "P y") auto
qed

lemma list_all_drop: "list_all P xs \<Longrightarrow> list_all P (drop n xs)"
  using set_drop_subset[of n xs] by (auto simp: list_all_iff)

lemma snd_set_drop: "snd ` set xs \<subseteq> S \<Longrightarrow> snd ` set (drop n xs) \<subseteq> S"
  using set_drop_subset[of n xs] by auto

lemma consume_ok:
  assumes closed: "known_actions ps"
  shows "consume ps items st = Inr st' \<Longrightarrow> parse_inv S st \<Longrightarrow>
         list_all (\<lambda>i. token_ok (fst i)) items \<Longrightarrow>
         (positionals st \<noteq> [] \<longrightarrow> shape items) \<Longrightarrow> snd ` set items \<subseteq> S \<Longrightarrow> parse_inv S st'"
proof (induction "length items" arbitrary: items st rule: less_induct)
  case less
  note run = less.prems(1) and i = less.prems(2) and toks = less.prems(3)
    and sh = less.prems(4) and sub = less.prems(5)
  show ?case
  proof (cases "list_ex is_option items")
    case False
    with run obtain stop st1 where
      c: "consume_positionals items st = Inr (stop, st1)"
      and s: "st' = st1\<lparr> extras := extras st1 @ map snd (drop stop items) \<rparr>"
      by (subst (asm) consume.simps) (auto split: sum.splits prod.splits)
    from consume_positionals_ok[OF i sh sub c] s show ?thesis by simp
  next
    case True
    let ?j = "length (takeWhile (\<lambda>i. \<not> is_option i) items)"
    from True have ne: "items \<noteq> []" by auto
    obtain pe st1 where
      c: "(if ?j \<noteq> 0 then consume_positionals items st else Inr (0, st)) = Inr (pe, st1)"
      using run True
      by (subst (asm) consume.simps) (auto simp: Let_def split: sum.splits prod.splits)
    have c1: "parse_inv S st1 \<and> (pe = 0 \<longrightarrow> st1 = st) \<and> (0 < pe \<longrightarrow> positionals st1 = [])"
    proof (cases "?j \<noteq> 0")
      case True
      with c have "consume_positionals items st = Inr (pe, st1)" by simp
      from consume_positionals_ok[OF i sh sub this] show ?thesis .
    next
      case False
      with c i show ?thesis by simp
    qed
    show ?thesis
    proof (cases "0 < pe")
      case True
      with run \<open>list_ex is_option items\<close> c
      have r: "consume ps (drop pe items) st1 = Inr st'"
        by (subst (asm) consume.simps) (simp add: Let_def)
      have "length (drop pe items) < length items" using True ne by simp
      from less.hyps[OF this r] c1 True list_all_drop[OF toks] snd_set_drop[OF sub]
      show ?thesis by simp
    next
      case False
      then have pe: "pe = 0" and st1: "st1 = st" using c1 by simp_all
      from drop_takeWhile_hd[OF True] obtain x following where
        d: "drop ?j items = x # following" and ox: "is_option x" by blast
      obtain t s where x: "x = (t, s)" by (cases x)
      from run \<open>list_ex is_option items\<close> c pe d x obtain k st2 where
        co: "consume_optional ps t s following
               (st1\<lparr> extras := extras st1 @ map snd (take ?j items) \<rparr>) = Inr (k, st2)"
        and r: "consume ps (drop k following) st2 = Inr st'"
        by (subst (asm) consume.simps) (auto simp: Let_def split: sum.splits prod.splits)
      have tk: "token_ok t"
        using list_all_drop[OF toks, of ?j] d x by simp
      have "parse_inv S (st1\<lparr> extras := extras st1 @ map snd (take ?j items) \<rparr>)"
        using c1 by simp
      from consume_optional_ok[OF closed tk co this]
      have i2: "parse_inv S st2" and p2: "positionals st2 = positionals st"
        and k: "k \<le> 1" "k = 1 \<longrightarrow> (\<exists>y r. following = (Arg, y) # r)"
        using st1 by simp_all
      have len: "length (drop k following) < length items"
      proof -
        have "length (drop ?j items) = Suc (length following)" using d by simp
        then show ?thesis by simp
      qed
      have toks2: "list_all (\<lambda>i. token_ok (fst i)) (drop k following)"
        using list_all_drop[OF toks, of ?j] d by (simp add: list_all_drop)
      have sub2: "snd ` set (drop k following) \<subseteq> S"
      proof -
        have "snd ` set following \<subseteq> S" using snd_set_drop[OF sub, of ?j] d by simp
        then show ?thesis by (rule snd_set_drop)
      qed
      have sh2: "positionals st2 \<noteq> [] \<longrightarrow> shape (drop k following)"
      proof
        assume "positionals st2 \<noteq> []"
        with p2 sh have "shape items" by simp
        then have "shape (x # following)" using shape_drop_nonoption[of items] d by simp
        then have f: "shape following" using ox x shape_after_option by blast
        show "shape (drop k following)"
        proof (cases "k = 0")
          case True
          with f show ?thesis by simp
        next
          case False
          with k obtain y r where "k = 1" "following = (Arg, y) # r" by auto
          with f show ?thesis by simp
        qed
      qed
      from less.hyps[OF len r i2 toks2 sh2 sub2] show ?thesis .
    qed
  qed
qed

lemma parse_args_general:
  assumes "parse_args parser argv = Inr ns"
  shows "(map_of ns ''optimizer'' = Some (PyStr ''BootstrapFewShot'')
          \<or> map_of ns ''optimizer'' = Some (PyStr ''MIPROv2''))
         \<and> (\<exists>path \<in> set argv. map_of ns ''json_file'' = Some (PyStr path))"
proof -
  from assms obtain items st where
    cl: "classify parser argv = Inr items" and run: "consume parser items initial_state = Inr st"
    and seen: "json_file_action \<in> set (seen_actions st)" and ns: "ns = namespace st"
    by (auto simp: parse_args_parser split: sum.splits if_splits)
  from classify_ok[OF cl] have sh: "shape items" and toks: "list_all (\<lambda>i. token_ok (fst i)) items"
    and strs: "map snd items = argv" by simp_all
  have i0: "parse_inv (set argv) initial_state"
    by (simp add: parse_inv_def initial_state_def optimizer_ok_def json_file_ok_def)
  have sub: "snd ` set items \<subseteq> set argv" using strs by force
  have "known_actions parser" using lookup_parser by (auto simp: known_actions_def)
  from consume_ok[OF this run i0 toks _ sub] sh
  have "parse_inv (set argv) st" by simp
  with seen ns show ?thesis by (auto simp: parse_inv_def optimizer_ok_def json_file_ok_def)
qed

section \<open>The metric on examples with expected missing components\<close>

text \<open>
  Claim C1.  For an example whose \<^verbatim>\<open>"missing"\<close> entry is the string \<open>m\<close> and a
  prediction whose \<^verbatim>\<open>tieback_or_transition\<close> is the string \<open>t\<close>, the metric returns
  a boolean, and it is true exactly when every label of \<open>m.split(',')\<close> is among
  the labels parsed from \<open>t\<close>, that is among
  \<open>t.split(':')[-1].strip().split(', ')\<close>.  Both lists enter the result only as
  sets, so the order of the labels on either side plays no part.
\<close>

theorem metric_missing_labels:
  assumes "map_of example ''missing'' = Some (JStr m)"
    and "tieback_or_transition prediction = Some t"
  shows "is_text_complete_and_correct answer_exact_match example prediction =
           Inr (set (split (CHR '','') [] m)
                  \<subseteq> set (split (CHR '','') '' '' (strip (last (split (CHR '':'') [] t)))))"
  using assms
  by (auto simp add: is_text_complete_and_correct_def has_key_def getitem_def
      str_split_method_def predicted_missing_parts_def builtin_all_iterable)

theorem metric_missing_labels_witness:
  "is_text_complete_and_correct string_exact_match
     [(''text'', JStr ''Dogs are the best pets.''), (''missing'', JStr ''evidence,analysis'')]
     \<lparr> topic_sentence = None, evidence = None, analysis = None,
       tieback_or_transition = Some ''Missing: analysis, tieback_or_transition, evidence'' \<rparr>
   = Inr True"
  using metric_missing_labels [of
     "[(''text'', JStr ''Dogs are the best pets.''), (''missing'', JStr ''evidence,analysis'')]"
     "''evidence,analysis''"
     "\<lparr> topic_sentence = None, evidence = None, analysis = None,
       tieback_or_transition = Some ''Missing: analysis, tieback_or_transition, evidence'' \<rparr>"
     "''Missing: analysis, tieback_or_transition, evidence''" string_exact_match]
  by (simp add: strip_def isspace_def)

section \<open>The metric on examples with expected extractions\<close>

text \<open>
  Claim C2.  On an example without a \<^verbatim>\<open>"missing"\<close> key the metric never returns a
  value, true or false: once the four comparisons have been made, the builtin
  \<^verbatim>\<open>all\<close> is called with four positional arguments and raises \<^verbatim>\<open>TypeError\<close>; before
  that, only an exception of a comparison or a missing key can end the call.
\<close>

theorem metric_extraction_never_returns:
  assumes "\<not> has_key example ''missing''"
  shows "is_text_complete_and_correct answer_exact_match example prediction \<noteq> Inr b"
  using assms
  by (simp add: is_text_complete_and_correct_def builtin_all_four split: sum.splits)

theorem metric_extraction_never_returns_witness:
  "\<not> has_key [(''topic_sentence'', JStr ''T''), (''evidence'', JStr ''E''),
              (''analysis'', JStr ''A''), (''tieback_or_transition'', JStr ''B'')] ''missing''
   \<and> is_text_complete_and_correct string_exact_match
        [(''topic_sentence'', JStr ''T''), (''evidence'', JStr ''E''),
         (''analysis'', JStr ''A''), (''tieback_or_transition'', JStr ''B'')]
        \<lparr> topic_sentence = Some ''T'', evidence = Some ''E'', analysis = Some ''A'',
          tieback_or_transition = Some ''B'' \<rparr> \<noteq> Inr True
   \<and> is_text_complete_and_correct string_exact_match
        [(''topic_sentence'', JStr ''T''), (''evidence'', JStr ''E''),
         (''analysis'', JStr ''A''), (''tieback_or_transition'', JStr ''B'')]
        \<lparr> topic_sentence = Some ''T'', evidence = Some ''E'', analysis = Some ''A'',
          tieback_or_transition = Some ''B'' \<rparr> = Inl TypeError"
  using metric_extraction_never_returns [of
        "[(''topic_sentence'', JStr ''T''), (''evidence'', JStr ''E''),
          (''analysis'', JStr ''A''), (''tieback_or_transition'', JStr ''B'')]"
        string_exact_match
        "\<lparr> topic_sentence = Some ''T'', evidence = Some ''E'', analysis = Some ''A'',
          tieback_or_transition = Some ''B'' \<rparr>" True]
  by (simp add: is_text_complete_and_correct_def has_key_def exact_match_call_def getitem_def
      string_exact_match_def builtin_all_def)

section \<open>The two stages of the module\<close>

text \<open>
  Claim C3.  For every text, \<^verbatim>\<open>forward\<close> calls the completeness classifier on the
  text first.  It calls the structure extractor, on the same text and after the
  classifier, only when the classification reports the text complete, and then
  returns whatever the extractor returns.  When the text is classified incomplete
  the extractor is not called: the only call is the classifier's, the state is the
  one the classifier left, and the result is a prediction whose
  \<^verbatim>\<open>tieback_or_transition\<close> carries a message starting with
  \<^verbatim>\<open>The provided text is incomplete.\<close> and whose other fields are \<^verbatim>\<open>None\<close>.
\<close>

theorem forward_classifies_then_extracts:
  "\<exists>rest. fst (snd (forward self text w)) = Classifier_call text # rest \<and>
     (case completeness_classifier self text w of
        (Inl e, w1) \<Rightarrow> rest = [] \<and> forward self text w = (Inl e, [Classifier_call text], w1)
      | (Inr missing_components, w1) \<Rightarrow>
          if reports_complete missing_components
          then rest = [Extractor_call text]
             \<and> fst (forward self text w) = fst (structure_extractor self text w1)
             \<and> snd (snd (forward self text w)) = snd (structure_extractor self text w1)
          else rest = []
             \<and> snd (snd (forward self text w)) = w1
             \<and> (\<exists>message. fst (forward self text w) =
                    Inr \<lparr> topic_sentence = None, evidence = None, analysis = None,
                          tieback_or_transition = Some message \<rparr>
                  \<and> prefix ''The provided text is incomplete.'' message))"
  by (auto simp: forward_def incomplete_message_def prefix_def split: prod.splits sum.splits)

theorem forward_classifies_then_extracts_witness:
  "forward (scripted_module (Inr ''evidence, analysis'') (Inr full_prediction))
      ''Dogs are the best pets.'' 0
   = (Inr \<lparr> topic_sentence = None, evidence = None, analysis = None,
            tieback_or_transition = Some
              ''The provided text is incomplete. The following components are missing: evidence, analysis.'' \<rparr>,
      [Classifier_call ''Dogs are the best pets.''], 1)
   \<and> forward (scripted_module (Inr ''all_present'') (Inr full_prediction))
      ''Dogs are the best pets.'' 0
   = (Inr full_prediction,
      [Classifier_call ''Dogs are the best pets.'', Extractor_call ''Dogs are the best pets.''], 2)"
  using forward_classifies_then_extracts [of
      "scripted_module (Inr ''evidence, analysis'') (Inr full_prediction)"
      "''Dogs are the best pets.''" 0]
  by (simp add: forward_def scripted_module_def reports_complete_def lower_def lower_char_def
      incomplete_message_def missing_parts_def replace_def)

section \<open>The predictions the module returns\<close>




section \<open>The completeness test\<close>

text \<open>
  Claim C8.  When the classifier answers \<open>missing_components\<close>, \<^verbatim>\<open>forward\<close> runs the
  structure extractor exactly when \<^verbatim>\<open>all_present\<close> occurs somewhere in the lowercased
  answer: then it calls the extractor on the text in the state the classifier left,
  and its result and final state are the extractor's; otherwise it makes no second
  call and returns the diagnostic prediction in the classifier's state.  The test
  is a case-insensitive substring test, not an equality: the answer
  \<^verbatim>\<open>All_Present, evidence\<close> passes it.
\<close>

theorem forward_substring_test:
  assumes "completeness_classifier self text w = (Inr missing_components, w1)"
  shows "((\<exists>pre suf. lower missing_components = pre @ ''all_present'' @ suf) \<longrightarrow>
            forward self text w =
              (fst (structure_extractor self text w1),
               [Classifier_call text, Extractor_call text],
               snd (structure_extractor self text w1)))
         \<and> (\<not> (\<exists>pre suf. lower missing_components = pre @ ''all_present'' @ suf) \<longrightarrow>
            forward self text w =
              (Inr \<lparr> topic_sentence = None, evidence = None, analysis = None,
                     tieback_or_transition = Some (incomplete_message missing_components) \<rparr>,
               [Classifier_call text], w1))"
  using assms
  by (simp add: forward_def reports_complete_def contains_iff split: prod.splits)

theorem forward_substring_test_witness:
  "lower ''All_Present, evidence'' = [] @ ''all_present'' @ '', evidence''
   \<and> ''All_Present, evidence'' \<noteq> ''all_present''
   \<and> forward (scripted_module (Inr ''All_Present, evidence'') (Inr full_prediction))
        ''Dogs are the best pets.'' 0
     = (Inr full_prediction,
        [Classifier_call ''Dogs are the best pets.'', Extractor_call ''Dogs are the best pets.''], 2)"
proof -
  have low: "lower ''All_Present, evidence'' = [] @ ''all_present'' @ '', evidence''"
    by code_simp
  then have ex: "\<exists>pre suf. lower ''All_Present, evidence'' = pre @ ''all_present'' @ suf"
    by blast
  have cls: "completeness_classifier (scripted_module (Inr ''All_Present, evidence'') (Inr full_prediction))
       ''Dogs are the best pets.'' 0 = (Inr ''All_Present, evidence'', 1)"
    by (simp add: scripted_module_def)
  have x: "structure_extractor (scripted_module (Inr ''All_Present, evidence'') (Inr full_prediction))
       ''Dogs are the best pets.'' 1 = (Inr full_prediction, 2)"
    by (simp add: scripted_module_def)
  from forward_substring_test [OF cls] ex
  have "forward (scripted_module (Inr ''All_Present, evidence'') (Inr full_prediction))
        ''Dogs are the best pets.'' 0
     = (fst (structure_extractor (scripted_module (Inr ''All_Present, evidence'') (Inr full_prediction))
               ''Dogs are the best pets.'' 1),
        [Classifier_call ''Dogs are the best pets.'', Extractor_call ''Dogs are the best pets.''],
        snd (structure_extractor (scripted_module (Inr ''All_Present, evidence'') (Inr full_prediction))
               ''Dogs are the best pets.'' 1))"
    by blast
  with x low show ?thesis by simp
qed

section \<open>Reading the diagnostic message back\<close>

text \<open>
  Claim C9, amended.  Let the classifier's answer contain no colon and, once its
  spaces are removed, not begin with a whitespace character, and let \<^verbatim>\<open>forward\<close>
  take the incomplete branch.  Then the labels the metric parses out of the
  returned message are, in the sorted order the metric puts them in, the
  classifier's comma-separated components with all spaces removed, the last of them
  followed by a period.  So the last component, without the period, is among the
  parsed labels only if the classifier listed it earlier as well; when it did not,
  the metric returns false on every example whose expected labels include that
  component.
\<close>

theorem forward_message_round_trip:
  assumes "completeness_classifier self text w = (Inr missing_components, w1)"
    and "\<not> reports_complete missing_components"
    and "CHR '':'' \<notin> set missing_components"
    and "replace (CHR '' '') [] missing_components = []
         \<or> \<not> isspace (hd (replace (CHR '' '') [] missing_components))"
  shows "\<exists>p t. fst (forward self text w) = Inr p \<and> tieback_or_transition p = Some t
           \<and> predicted_missing_parts t
               = sort (butlast (missing_parts missing_components)
                         @ [last (missing_parts missing_components) @ ''.''])
           \<and> (last (missing_parts missing_components) \<in> set (predicted_missing_parts t)
                \<longleftrightarrow> last (missing_parts missing_components)
                        \<in> set (butlast (missing_parts missing_components)))
           \<and> (\<forall>answer_exact_match example m.
                 map_of example ''missing'' = Some (JStr m)
                 \<and> last (missing_parts missing_components) \<in> set (split (CHR '','') [] m)
                 \<and> last (missing_parts missing_components)
                        \<notin> set (butlast (missing_parts missing_components))
                 \<longrightarrow> is_text_complete_and_correct answer_exact_match example p = Inr False)"
proof -
  let ?parts = "missing_parts missing_components"
  let ?t = "incomplete_message missing_components"
  let ?p = "\<lparr> topic_sentence = None, evidence = None, analysis = None,
              tieback_or_transition = Some ?t \<rparr>"
  have run: "fst (forward self text w) = Inr ?p"
    using assms(1,2) by (simp add: forward_def)
  have raw: "split (CHR '','') '' '' (strip (last (split (CHR '':'') [] ?t)))
               = butlast ?parts @ [last ?parts @ ''.'']"
    using assms(3,4) by (rule parsed_incomplete_message)
  then have parsed: "predicted_missing_parts ?t = sort (butlast ?parts @ [last ?parts @ ''.''])"
    by (simp add: predicted_missing_parts_def)
  have bare: "last ?parts \<in> set (predicted_missing_parts ?t) \<longleftrightarrow> last ?parts \<in> set (butlast ?parts)"
    unfolding parsed by auto
  have metric: "is_text_complete_and_correct answer_exact_match example ?p = Inr False"
    if "map_of example ''missing'' = Some (JStr m)"
      and "last ?parts \<in> set (split (CHR '','') [] m)"
      and "last ?parts \<notin> set (butlast ?parts)"
    for answer_exact_match example m
  proof -
    have "is_text_complete_and_correct answer_exact_match example ?p
          = Inr (set (split (CHR '','') [] m) \<subseteq> set (butlast ?parts @ [last ?parts @ ''.'']))"
      using that(1) raw
      by (auto simp add: is_text_complete_and_correct_def has_key_def getitem_def
          str_split_method_def predicted_missing_parts_def builtin_all_iterable)
    moreover have "\<not> set (split (CHR '','') [] m) \<subseteq> set (butlast ?parts @ [last ?parts @ ''.''])"
      using that(2,3) by auto
    ultimately show ?thesis by simp
  qed
  show ?thesis
    using run parsed bare metric by (intro exI[of _ ?p] exI[of _ ?t]) simp
qed

theorem forward_message_round_trip_witness:
  "\<exists>p t. fst (forward (scripted_module (Inr ''evidence, analysis'') (Inr full_prediction))
                 ''Dogs are the best pets.'' 0) = Inr p
     \<and> tieback_or_transition p = Some t
     \<and> predicted_missing_parts t = [''analysis.'', ''evidence'']
     \<and> ''analysis'' \<notin> set (predicted_missing_parts t)
     \<and> is_text_complete_and_correct string_exact_match
          [(''missing'', JStr ''evidence,analysis'')] p = Inr False"
proof -
  have cls: "completeness_classifier (scripted_module (Inr ''evidence, analysis'') (Inr full_prediction))
       ''Dogs are the best pets.'' 0 = (Inr ''evidence, analysis'', 1)"
    by (simp add: scripted_module_def)
  have inc: "\<not> reports_complete ''evidence, analysis''"
    by (simp add: reports_complete_def lower_def lower_char_def)
  have col: "CHR '':'' \<notin> set ''evidence, analysis''" by simp
  have ws: "replace (CHR '' '') [] ''evidence, analysis'' = []
         \<or> \<not> isspace (hd (replace (CHR '' '') [] ''evidence, analysis''))"
    by (simp add: replace_def isspace_def)
  have parts: "missing_parts ''evidence, analysis'' = [''evidence'', ''analysis'']"
    by (simp add: missing_parts_def replace_def)
  have srt: "sort [''evidence'', ''analysis.''] = [''analysis.'', ''evidence'']"
    by code_simp
  from forward_message_round_trip [OF cls inc col ws]
  obtain p t where
    f: "fst (forward (scripted_module (Inr ''evidence, analysis'') (Inr full_prediction))
                 ''Dogs are the best pets.'' 0) = Inr p"
    and t: "tieback_or_transition p = Some t"
    and pm: "predicted_missing_parts t = sort (butlast (missing_parts ''evidence, analysis'')
                         @ [last (missing_parts ''evidence, analysis'') @ ''.''])"
    and m: "\<forall>answer_exact_match example m.
                 map_of example ''missing'' = Some (JStr m)
                 \<and> last (missing_parts ''evidence, analysis'') \<in> set (split (CHR '','') [] m)
                 \<and> last (missing_parts ''evidence, analysis'')
                        \<notin> set (butlast (missing_parts ''evidence, analysis''))
                 \<longrightarrow> is_text_complete_and_correct answer_exact_match example p = Inr False"
    by blast
  have pm': "predicted_missing_parts t = [''analysis.'', ''evidence'']"
    using pm parts srt by simp
  have "is_text_complete_and_correct string_exact_match
          [(''missing'', JStr ''evidence,analysis'')] p = Inr False"
    using m [rule_format, of "[(''missing'', JStr ''evidence,analysis'')]" "''evidence,analysis''" string_exact_match]
      parts by simp
  with f t pm' show ?thesis by auto
qed

text \<open>
  The hypotheses are needed.  An answer with a colon, \<^verbatim>\<open>missing: evidence\<close>, is read
  back as \<^verbatim>\<open>evidence.\<close> alone, not as \<^verbatim>\<open>missing:evidence.\<close>; with the answer
  \<^verbatim>\<open>evidence,evidence\<close> the bare label \<^verbatim>\<open>evidence\<close> of the last component is read
  back, and the metric returns true; a tab in front of \<^verbatim>\<open>evidence\<close> is kept by
  \<^verbatim>\<open>forward\<close> and stripped by the metric; and \<^verbatim>\<open>topic_sentence,evidence\<close> comes
  back in sorted order, the label with the period first.
\<close>

theorem forward_message_round_trip_counterexample:
  "\<not> reports_complete ''missing: evidence''
   \<and> fst (forward (scripted_module (Inr ''missing: evidence'') (Inr full_prediction))
            ''Dogs are the best pets.'' 0)
       = Inr \<lparr> topic_sentence = None, evidence = None, analysis = None,
               tieback_or_transition = Some
                 ''The provided text is incomplete. The following components are missing: missing:evidence.'' \<rparr>
   \<and> predicted_missing_parts
        ''The provided text is incomplete. The following components are missing: missing:evidence.''
       = [''evidence.'']
   \<and> butlast (missing_parts ''missing: evidence'') @ [last (missing_parts ''missing: evidence'') @ ''.'']
       = [''missing:evidence.'']
   \<and> \<not> reports_complete ''evidence,evidence''
   \<and> fst (forward (scripted_module (Inr ''evidence,evidence'') (Inr full_prediction))
            ''Dogs are the best pets.'' 0)
       = Inr \<lparr> topic_sentence = None, evidence = None, analysis = None,
               tieback_or_transition = Some
                 ''The provided text is incomplete. The following components are missing: evidence, evidence.'' \<rparr>
   \<and> last (missing_parts ''evidence,evidence'') = ''evidence''
   \<and> ''evidence'' \<in> set (predicted_missing_parts
        ''The provided text is incomplete. The following components are missing: evidence, evidence.'')
   \<and> is_text_complete_and_correct string_exact_match [(''missing'', JStr ''evidence'')]
        \<lparr> topic_sentence = None, evidence = None, analysis = None,
               tieback_or_transition = Some
                 ''The provided text is incomplete. The following components are missing: evidence, evidence.'' \<rparr>
       = Inr True
   \<and> \<not> reports_complete (CHR 0x09 # ''evidence'')
   \<and> predicted_missing_parts (incomplete_message (CHR 0x09 # ''evidence'')) = [''evidence.'']
   \<and> missing_parts (CHR 0x09 # ''evidence'') = [CHR 0x09 # ''evidence'']
   \<and> \<not> reports_complete ''topic_sentence,evidence''
   \<and> predicted_missing_parts (incomplete_message ''topic_sentence,evidence'')
       = [''evidence.'', ''topic_sentence'']
   \<and> missing_parts ''topic_sentence,evidence'' = [''topic_sentence'', ''evidence'']"
  by code_simp

section \<open>Failures\<close>

text \<open>
  Claim C5.  No function of the script catches or translates a failure: each function
  raises exactly when one of the operations it performs raises, and then with the
  exception of the first operation that does.

  \<^verbatim>\<open>load_trainset\<close> raises \<open>e\<close> exactly when opening or parsing the file raises \<open>e\<close>; or
  the parsed value is no object (\<^verbatim>\<open>TypeError\<close>); or the object has no \<^verbatim>\<open>"samples"\<close>
  (\<^verbatim>\<open>KeyError\<close>); or iterating the value under that key raises \<open>e\<close>; or building the
  example of some sample raises \<open>e\<close>, after the examples of all samples before it
  were built.  \<^verbatim>\<open>forward\<close> raises \<open>e\<close> exactly when the classifier raises \<open>e\<close>, or
  the classifier reports the text complete and the extractor raises \<open>e\<close>.

  The metric looks a field up in the example and compares: a field the example
  lacks raises the \<^verbatim>\<open>KeyError\<close> of that field, otherwise the call is the framework's
  comparison.  The metric raises \<open>e\<close> exactly when the value under \<^verbatim>\<open>"missing"\<close> is no
  string or the prediction has no \<^verbatim>\<open>tieback_or_transition\<close> to split
  (\<^verbatim>\<open>AttributeError\<close>), or, for an example without \<^verbatim>\<open>"missing"\<close>, the first of the
  four comparisons that raises does so with \<open>e\<close>, or all four return and \<^verbatim>\<open>all\<close>
  raises \<^verbatim>\<open>TypeError\<close>.

  \<^verbatim>\<open>print_full_prompt\<close> raises exactly when a demonstration of the classifier or of
  the extractor lacks one of the fields printed for it (\<^verbatim>\<open>AttributeError\<close>).
  \<^verbatim>\<open>main\<close> raises \<open>e\<close> exactly when \<^verbatim>\<open>load_trainset\<close> raises \<open>e\<close>, or the optimizer
  does, or the run on the first sample text does, or, after that run returned, the
  run on the second sample text does, or, after both runs returned,
  \<^verbatim>\<open>print_full_prompt\<close> does.
\<close>

theorem failures_propagate:
  "((load_trainset json_load json_file_path = Inl e)
      = (json_load json_file_path = Inl e
         \<or> (\<exists>data. json_load json_file_path = Inr data \<and> (\<forall>items. data \<noteq> JObj items)
               \<and> e = TypeError)
         \<or> (\<exists>items. json_load json_file_path = Inr (JObj items)
               \<and> map_of items ''samples'' = None \<and> e = KeyError ''samples'')
         \<or> (\<exists>items samples. json_load json_file_path = Inr (JObj items)
               \<and> map_of items ''samples'' = Some samples \<and> iter samples = Inl e)
         \<or> (\<exists>items samples pre sample rest. json_load json_file_path = Inr (JObj items)
               \<and> map_of items ''samples'' = Some samples
               \<and> iter samples = Inr (pre @ sample # rest)
               \<and> (\<forall>y \<in> set pre. \<exists>ex. Example y = Inr ex) \<and> Example sample = Inl e)))
   \<and> ((fst (forward self text w) = Inl e)
      = (fst (completeness_classifier self text w) = Inl e
         \<or> (\<exists>missing_components.
               fst (completeness_classifier self text w) = Inr missing_components
               \<and> reports_complete missing_components
               \<and> fst (structure_extractor self text (snd (completeness_classifier self text w)))
                   = Inl e)))
   \<and> exact_match_call answer_exact_match field example k
      = (case map_of example k of
           None \<Rightarrow> Inl (KeyError k)
         | Some v \<Rightarrow> answer_exact_match field v)
   \<and> ((is_text_complete_and_correct answer_exact_match example prediction = Inl e)
      = ((\<exists>v. map_of example ''missing'' = Some v \<and> (\<forall>s. v \<noteq> JStr s) \<and> e = AttributeError)
         \<or> (\<exists>s. map_of example ''missing'' = Some (JStr s)
               \<and> tieback_or_transition prediction = None \<and> e = AttributeError)
         \<or> (map_of example ''missing'' = None
             \<and> (exact_match_call answer_exact_match (topic_sentence prediction) example
                   ''topic_sentence'' = Inl e
                \<or> (\<exists>c1. exact_match_call answer_exact_match (topic_sentence prediction) example
                           ''topic_sentence'' = Inr c1
                    \<and> (exact_match_call answer_exact_match (evidence prediction) example
                          ''evidence'' = Inl e
                       \<or> (\<exists>c2. exact_match_call answer_exact_match (evidence prediction) example
                                  ''evidence'' = Inr c2
                           \<and> (exact_match_call answer_exact_match (analysis prediction) example
                                 ''analysis'' = Inl e
                              \<or> (\<exists>c3. exact_match_call answer_exact_match (analysis prediction)
                                         example ''analysis'' = Inr c3
                                  \<and> (exact_match_call answer_exact_match
                                        (tieback_or_transition prediction) example
                                        ''tieback_or_transition'' = Inl e
                                     \<or> (\<exists>c4. exact_match_call answer_exact_match
                                                (tieback_or_transition prediction) example
                                                ''tieback_or_transition'' = Inr c4
                                         \<and> e = TypeError)))))))))))
   \<and> ((print_full_prompt compiled_module = Inl e)
      = (e = AttributeError
         \<and> ((\<exists>demo \<in> set (or_empty (completeness_classifier_demos compiled_module)).
                map_of demo ''text'' = None \<or> map_of demo ''missing_components'' = None)
            \<or> (\<exists>demo \<in> set (or_empty (structure_extractor_demos compiled_module)).
                map_of demo ''context'' = None \<or> map_of demo ''topic_sentence'' = None
                \<or> map_of demo ''evidence'' = None \<or> map_of demo ''analysis'' = None
                \<or> map_of demo ''tieback_or_transition'' = None))))
   \<and> ((fst (main json_load compile student json_file_path optimizer_type w) = Inl e)
      = (load_trainset json_load json_file_path = Inl e
         \<or> (\<exists>trainset. load_trainset json_load json_file_path = Inr trainset
              \<and> (fst (compile (if optimizer_type = ''BootstrapFewShot'' then BootstrapFewShot
                                else MIPROv2) student trainset w) = Inl e
                 \<or> (\<exists>compiled_extractor w'.
                       compile (if optimizer_type = ''BootstrapFewShot'' then BootstrapFewShot
                                else MIPROv2) student trainset w = (Inr compiled_extractor, w')
                     \<and> (fst (forward (extractor compiled_extractor) unseen_text_complete w')
                          = Inl e
                        \<or> (\<exists>p calls w''.
                              forward (extractor compiled_extractor) unseen_text_complete w'
                                = (Inr p, calls, w'')
                            \<and> (fst (forward (extractor compiled_extractor)
                                       unseen_text_incomplete w'') = Inl e
                               \<or> (\<exists>p'. fst (forward (extractor compiled_extractor)
                                              unseen_text_incomplete w'') = Inr p')
                                  \<and> print_full_prompt compiled_extractor = Inl e))))))))"
proof (intro conjI)
  show "(load_trainset json_load json_file_path = Inl e)
      = (json_load json_file_path = Inl e
         \<or> (\<exists>data. json_load json_file_path = Inr data \<and> (\<forall>items. data \<noteq> JObj items)
               \<and> e = TypeError)
         \<or> (\<exists>items. json_load json_file_path = Inr (JObj items)
               \<and> map_of items ''samples'' = None \<and> e = KeyError ''samples'')
         \<or> (\<exists>items samples. json_load json_file_path = Inr (JObj items)
               \<and> map_of items ''samples'' = Some samples \<and> iter samples = Inl e)
         \<or> (\<exists>items samples pre sample rest. json_load json_file_path = Inr (JObj items)
               \<and> map_of items ''samples'' = Some samples
               \<and> iter samples = Inr (pre @ sample # rest)
               \<and> (\<forall>y \<in> set pre. \<exists>ex. Example y = Inr ex) \<and> Example sample = Inl e))"
    (is "?l = ?r")
  proof
    assume ?l
    then show ?r by (rule load_trainset_raises_only)
  next
    assume ?r
    then show ?l using load_trainset_raises [of json_load json_file_path] by blast
  qed
next
  show "(fst (forward self text w) = Inl e)
      = (fst (completeness_classifier self text w) = Inl e
         \<or> (\<exists>missing_components.
               fst (completeness_classifier self text w) = Inr missing_components
               \<and> reports_complete missing_components
               \<and> fst (structure_extractor self text (snd (completeness_classifier self text w)))
                   = Inl e))"
    by (auto simp: forward_def split: prod.splits sum.splits if_splits)
next
  show "exact_match_call answer_exact_match field example k
      = (case map_of example k of
           None \<Rightarrow> Inl (KeyError k)
         | Some v \<Rightarrow> answer_exact_match field v)"
    by (rule exact_match_call_eq)
next
  show "(is_text_complete_and_correct answer_exact_match example prediction = Inl e)
      = ((\<exists>v. map_of example ''missing'' = Some v \<and> (\<forall>s. v \<noteq> JStr s) \<and> e = AttributeError)
         \<or> (\<exists>s. map_of example ''missing'' = Some (JStr s)
               \<and> tieback_or_transition prediction = None \<and> e = AttributeError)
         \<or> (map_of example ''missing'' = None
             \<and> (exact_match_call answer_exact_match (topic_sentence prediction) example
                   ''topic_sentence'' = Inl e
                \<or> (\<exists>c1. exact_match_call answer_exact_match (topic_sentence prediction) example
                           ''topic_sentence'' = Inr c1
                    \<and> (exact_match_call answer_exact_match (evidence prediction) example
                          ''evidence'' = Inl e
                       \<or> (\<exists>c2. exact_match_call answer_exact_match (evidence prediction) example
                                  ''evidence'' = Inr c2
                           \<and> (exact_match_call answer_exact_match (analysis prediction) example
                                 ''analysis'' = Inl e
                              \<or> (\<exists>c3. exact_match_call answer_exact_match (analysis prediction)
                                         example ''analysis'' = Inr c3
                                  \<and> (exact_match_call answer_exact_match
                                        (tieback_or_transition prediction) example
                                        ''tieback_or_transition'' = Inl e
                                     \<or> (\<exists>c4. exact_match_call answer_exact_match
                                                (tieback_or_transition prediction) example
                                                ''tieback_or_transition'' = Inr c4
                                         \<and> e = TypeError))))))))))"
    (is "?l = ?r")
  proof (cases "map_of example ''missing''")
    case None
    then show ?thesis
      by (auto simp: is_text_complete_and_correct_def has_key_def builtin_all_def
            split: sum.splits)
  next
    case (Some v)
    show ?thesis
    proof (cases "\<exists>s. v = JStr s")
      case False
      with Some show ?thesis
        by (cases v)
           (auto simp: is_text_complete_and_correct_def has_key_def getitem_def
              str_split_method_def)
    next
      case True
      then obtain s where v: "v = JStr s" by blast
      with Some show ?thesis
        by (cases "tieback_or_transition prediction")
           (auto simp: is_text_complete_and_correct_def has_key_def getitem_def
              str_split_method_def builtin_all_def Let_def)
    qed
  qed
next
  show "(print_full_prompt compiled_module = Inl e)
      = (e = AttributeError
         \<and> ((\<exists>demo \<in> set (or_empty (completeness_classifier_demos compiled_module)).
                map_of demo ''text'' = None \<or> map_of demo ''missing_components'' = None)
            \<or> (\<exists>demo \<in> set (or_empty (structure_extractor_demos compiled_module)).
                map_of demo ''context'' = None \<or> map_of demo ''topic_sentence'' = None
                \<or> map_of demo ''evidence'' = None \<or> map_of demo ''analysis'' = None
                \<or> map_of demo ''tieback_or_transition'' = None)))"
    by (rule print_full_prompt_Inl)
next
  show "(fst (main json_load compile student json_file_path optimizer_type w) = Inl e)
      = (load_trainset json_load json_file_path = Inl e
         \<or> (\<exists>trainset. load_trainset json_load json_file_path = Inr trainset
              \<and> (fst (compile (if optimizer_type = ''BootstrapFewShot'' then BootstrapFewShot
                                else MIPROv2) student trainset w) = Inl e
                 \<or> (\<exists>compiled_extractor w'.
                       compile (if optimizer_type = ''BootstrapFewShot'' then BootstrapFewShot
                                else MIPROv2) student trainset w = (Inr compiled_extractor, w')
                     \<and> (fst (forward (extractor compiled_extractor) unseen_text_complete w')
                          = Inl e
                        \<or> (\<exists>p calls w''.
                              forward (extractor compiled_extractor) unseen_text_complete w'
                                = (Inr p, calls, w'')
                            \<and> (fst (forward (extractor compiled_extractor)
                                       unseen_text_incomplete w'') = Inl e
                               \<or> (\<exists>p'. fst (forward (extractor compiled_extractor)
                                              unseen_text_incomplete w'') = Inr p')
                                  \<and> print_full_prompt compiled_extractor = Inl e)))))))"
    by (auto simp: main_def Let_def split: prod.splits sum.splits)
qed

theorem failures_propagate_witness:
  "load_trainset (\<lambda>path. Inl (Raised ''JSONDecodeError'')) ''train.json''
     = Inl (Raised ''JSONDecodeError'')
   \<and> load_trainset (\<lambda>path. Inr (JArr [])) ''train.json'' = Inl TypeError
   \<and> load_trainset (\<lambda>path. Inr (JObj [(''records'', JArr [])])) ''train.json''
     = Inl (KeyError ''samples'')
   \<and> load_trainset (\<lambda>path. Inr (JObj [(''samples'', JInt 3)])) ''train.json'' = Inl TypeError
   \<and> load_trainset
       (\<lambda>path. Inr (JObj [(''samples'', JArr [JObj [(''text'', JStr ''a'')], JInt 1])]))
       ''train.json''
     = Inl TypeError
   \<and> fst (forward (scripted_module (Inl (Raised ''APIError'')) (Inr full_prediction))
            ''Dogs are the best pets.'' 0)
     = Inl (Raised ''APIError'')
   \<and> fst (forward (scripted_module (Inr ''all_present'') (Inl (Raised ''APIError'')))
            ''Dogs are the best pets.'' 0)
     = Inl (Raised ''APIError'')
   \<and> is_text_complete_and_correct string_exact_match
        [(''text'', JStr ''a''), (''topic_sentence'', JStr ''T'')] full_prediction
     = Inl (KeyError ''evidence'')
   \<and> is_text_complete_and_correct string_exact_match [(''missing'', JNull)] full_prediction
     = Inl AttributeError
   \<and> fst (main (\<lambda>path. Inr (JObj [(''samples'', JArr [])]))
            (\<lambda>optimizer student trainset n.
               (Inr \<lparr> extractor = student, completeness_classifier_demos = None,
                       structure_extractor_demos = None \<rparr>, Suc n))
            (failing_module 2) ''train.json'' ''MIPROv2'' 0)
     = Inl (Raised ''APIError'')
   \<and> fst (main
            (\<lambda>path. Inr (JObj [(''samples'',
               JArr [JObj [(''text'', JStr ''a''), (''missing'', JStr ''evidence'')]])]))
            (\<lambda>optimizer student trainset n.
               (Inr \<lparr> extractor = student, completeness_classifier_demos = Some trainset,
                       structure_extractor_demos = None \<rparr>, Suc n))
            (scripted_module (Inr ''evidence'') (Inr full_prediction))
            ''train.json'' ''BootstrapFewShot'' 0)
     = Inl AttributeError"
proof -
  have l1: "load_trainset (\<lambda>path. Inl (Raised ''JSONDecodeError'')) ''train.json''
     = Inl (Raised ''JSONDecodeError'')"
    using failures_propagate
      [where json_load = "\<lambda>path. Inl (Raised ''JSONDecodeError'')"
         and json_file_path = "''train.json''" and e = "Raised ''JSONDecodeError''",
         THEN conjunct1]
    by simp
  have l2: "load_trainset (\<lambda>path. Inr (JArr [])) ''train.json'' = Inl TypeError"
    using failures_propagate
      [where json_load = "\<lambda>path. Inr (JArr [])"
         and json_file_path = "''train.json''" and e = TypeError,
         THEN conjunct1]
    by simp
  have l3: "load_trainset (\<lambda>path. Inr (JObj [(''records'', JArr [])])) ''train.json''
     = Inl (KeyError ''samples'')"
    using failures_propagate
      [where json_load = "\<lambda>path. Inr (JObj [(''records'', JArr [])])"
         and json_file_path = "''train.json''" and e = "KeyError ''samples''",
         THEN conjunct1]
    by simp
  have l4: "load_trainset (\<lambda>path. Inr (JObj [(''samples'', JInt 3)])) ''train.json''
     = Inl TypeError"
    using failures_propagate
      [where json_load = "\<lambda>path. Inr (JObj [(''samples'', JInt 3)])"
         and json_file_path = "''train.json''" and e = TypeError,
         THEN conjunct1]
    by (simp add: iter_def)
  have s: "\<exists>pre sample rest.
      [JObj [(''text'', JStr ''a'')], JInt 1] = pre @ sample # rest
      \<and> (\<forall>y \<in> set pre. \<exists>ex. Example y = Inr ex) \<and> Example sample = Inl TypeError"
    by (rule exI [of _ "[JObj [(''text'', JStr ''a'')]]"], rule exI [of _ "JInt 1"],
        rule exI [of _ "[]"])
       (simp add: Example_def has_key_def)
  have l5: "load_trainset
       (\<lambda>path. Inr (JObj [(''samples'', JArr [JObj [(''text'', JStr ''a'')], JInt 1])]))
       ''train.json''
     = Inl TypeError"
    using failures_propagate
      [where json_load
         = "\<lambda>path. Inr (JObj [(''samples'', JArr [JObj [(''text'', JStr ''a'')], JInt 1])])"
         and json_file_path = "''train.json''" and e = TypeError,
         THEN conjunct1] s
    by (simp add: iter_def)
  have f1: "fst (forward (scripted_module (Inl (Raised ''APIError'')) (Inr full_prediction))
            ''Dogs are the best pets.'' 0)
     = Inl (Raised ''APIError'')"
    using failures_propagate
      [where self = "scripted_module (Inl (Raised ''APIError'')) (Inr full_prediction)"
         and ?text = "''Dogs are the best pets.''" and w = "0::nat"
         and e = "Raised ''APIError''",
         THEN conjunct2, THEN conjunct1]
    by (simp add: scripted_module_def)
  have c: "reports_complete ''all_present''"
    by (simp add: reports_complete_def lower_def lower_char_def)
  have f2: "fst (forward (scripted_module (Inr ''all_present'') (Inl (Raised ''APIError'')))
            ''Dogs are the best pets.'' 0)
     = Inl (Raised ''APIError'')"
    using failures_propagate
      [where self = "scripted_module (Inr ''all_present'') (Inl (Raised ''APIError''))"
         and ?text = "''Dogs are the best pets.''" and w = "0::nat"
         and e = "Raised ''APIError''",
         THEN conjunct2, THEN conjunct1] c
    by (simp add: scripted_module_def)
  note x1 = failures_propagate
      [where answer_exact_match = string_exact_match
         and example = "[(''text'', JStr ''a''), (''topic_sentence'', JStr ''T'')]"
         and field = "Some ''T''" and k = "''topic_sentence''",
         THEN conjunct2, THEN conjunct2, THEN conjunct1]
  note x2 = failures_propagate
      [where answer_exact_match = string_exact_match
         and example = "[(''text'', JStr ''a''), (''topic_sentence'', JStr ''T'')]"
         and field = "Some ''E''" and k = "''evidence''",
         THEN conjunct2, THEN conjunct2, THEN conjunct1]
  have m1: "is_text_complete_and_correct string_exact_match
        [(''text'', JStr ''a''), (''topic_sentence'', JStr ''T'')] full_prediction
     = Inl (KeyError ''evidence'')"
    using failures_propagate
      [where answer_exact_match = string_exact_match
         and example = "[(''text'', JStr ''a''), (''topic_sentence'', JStr ''T'')]"
         and prediction = full_prediction and e = "KeyError ''evidence''",
         THEN conjunct2, THEN conjunct2, THEN conjunct2, THEN conjunct1] x1 x2
    by (auto simp: full_prediction_def string_exact_match_def)
  have m2: "is_text_complete_and_correct string_exact_match [(''missing'', JNull)]
        full_prediction = Inl AttributeError"
    using failures_propagate
      [where answer_exact_match = string_exact_match
         and example = "[(''missing'', JNull)]"
         and prediction = full_prediction and e = AttributeError,
         THEN conjunct2, THEN conjunct2, THEN conjunct2, THEN conjunct1]
    by simp
  have t: "load_trainset (\<lambda>path. Inr (JObj [(''samples'', JArr [])])) ''train.json'' = Inr []"
    by (simp add: load_trainset_def subscript_def getitem_def iter_def)
  have n: "\<not> reports_complete ''evidence''"
    by (simp add: reports_complete_def lower_def lower_char_def)
  have r1: "forward (failing_module 2) unseen_text_complete 1
      = (Inr \<lparr> topic_sentence = None, evidence = None, analysis = None,
               tieback_or_transition = Some (incomplete_message ''evidence'') \<rparr>,
         [Classifier_call unseen_text_complete], 2)"
    using n by (simp add: forward_def failing_module_def)
  have r2: "fst (forward (failing_module 2) unseen_text_incomplete 2)
      = Inl (Raised ''APIError'')"
    by (simp add: forward_def failing_module_def)
  have n1: "fst (main (\<lambda>path. Inr (JObj [(''samples'', JArr [])]))
            (\<lambda>optimizer student trainset n.
               (Inr \<lparr> extractor = student, completeness_classifier_demos = None,
                       structure_extractor_demos = None \<rparr>, Suc n))
            (failing_module 2) ''train.json'' ''MIPROv2'' 0)
     = Inl (Raised ''APIError'')"
    using failures_propagate
      [where json_load = "\<lambda>path. Inr (JObj [(''samples'', JArr [])])"
         and json_file_path = "''train.json''"
         and compile = "\<lambda>optimizer student trainset n.
               (Inr \<lparr> extractor = student, completeness_classifier_demos = None,
                       structure_extractor_demos = None \<rparr>, Suc n)"
         and student = "failing_module 2" and optimizer_type = "''MIPROv2''"
         and w = "0::nat" and e = "Raised ''APIError''",
         THEN conjunct2, THEN conjunct2, THEN conjunct2, THEN conjunct2, THEN conjunct2]
      t r1 r2
    by simp
  have t': "load_trainset
      (\<lambda>path. Inr (JObj [(''samples'',
         JArr [JObj [(''text'', JStr ''a''), (''missing'', JStr ''evidence'')]])]))
      ''train.json''
     = Inr [[(''text'', JStr ''a''), (''missing'', JStr ''evidence'')]]"
    by (simp add: load_trainset_def subscript_def getitem_def iter_def Example_def has_key_def)
  have q1: "forward (scripted_module (Inr ''evidence'') (Inr full_prediction))
        unseen_text_complete 1
      = (Inr \<lparr> topic_sentence = None, evidence = None, analysis = None,
               tieback_or_transition = Some (incomplete_message ''evidence'') \<rparr>,
         [Classifier_call unseen_text_complete], 2)"
    using n by (simp add: forward_def scripted_module_def)
  have q2: "fst (forward (scripted_module (Inr ''evidence'') (Inr full_prediction))
        unseen_text_incomplete 2)
      = Inr \<lparr> topic_sentence = None, evidence = None, analysis = None,
               tieback_or_transition = Some (incomplete_message ''evidence'') \<rparr>"
    using n by (simp add: forward_def scripted_module_def)
  have q3: "print_full_prompt
       \<lparr> extractor = scripted_module (Inr ''evidence'') (Inr full_prediction),
         completeness_classifier_demos
           = Some [[(''text'', JStr ''a''), (''missing'', JStr ''evidence'')]],
         structure_extractor_demos = None \<rparr>
      = Inl AttributeError"
    using failures_propagate
      [where compiled_module
         = "\<lparr> extractor = scripted_module (Inr ''evidence'') (Inr full_prediction),
              completeness_classifier_demos
                = Some [[(''text'', JStr ''a''), (''missing'', JStr ''evidence'')]],
              structure_extractor_demos = None \<rparr>"
         and e = AttributeError,
         THEN conjunct2, THEN conjunct2, THEN conjunct2, THEN conjunct2, THEN conjunct1]
    by (simp add: or_empty_def)
  have n2: "fst (main
            (\<lambda>path. Inr (JObj [(''samples'',
               JArr [JObj [(''text'', JStr ''a''), (''missing'', JStr ''evidence'')]])]))
            (\<lambda>optimizer student trainset n.
               (Inr \<lparr> extractor = student, completeness_classifier_demos = Some trainset,
                       structure_extractor_demos = None \<rparr>, Suc n))
            (scripted_module (Inr ''evidence'') (Inr full_prediction))
            ''train.json'' ''BootstrapFewShot'' 0)
     = Inl AttributeError"
    using failures_propagate
      [where json_load = "\<lambda>path. Inr (JObj [(''samples'',
               JArr [JObj [(''text'', JStr ''a''), (''missing'', JStr ''evidence'')]])])"
         and json_file_path = "''train.json''"
         and compile = "\<lambda>optimizer student trainset n.
               (Inr \<lparr> extractor = student, completeness_classifier_demos = Some trainset,
                       structure_extractor_demos = None \<rparr>, Suc n)"
         and student = "scripted_module (Inr ''evidence'') (Inr full_prediction)"
         and optimizer_type = "''BootstrapFewShot''"
         and w = "0::nat" and e = AttributeError,
         THEN conjunct2, THEN conjunct2, THEN conjunct2, THEN conjunct2, THEN conjunct2]
      t' q1 q2 q3
    by simp
  from l1 l2 l3 l4 l5 f1 f2 m1 m2 n1 n2 show ?thesis by simp
qed

section \<open>The input file\<close>

text \<open>
  Claim C7, amended.  \<^verbatim>\<open>load_trainset\<close> succeeds exactly when the file is read and
  parsed, the parsed value is an object with a \<^verbatim>\<open>"samples"\<close> key, the value under
  that key is iterable, and every item the iteration yields is itself an object
  that has no key \<^verbatim>\<open>self\<close>.  The result depends on the value under \<^verbatim>\<open>"samples"\<close>
  alone: two parsed objects that agree on that key give the same result, whatever
  else they hold.
\<close>

theorem load_trainset_succeeds_iff:
  "((\<exists>trainset. load_trainset json_load json_file_path = Inr trainset)
      = (\<exists>items samples xs. json_load json_file_path = Inr (JObj items)
            \<and> map_of items ''samples'' = Some samples
            \<and> iter samples = Inr xs
            \<and> (\<forall>x \<in> set xs. \<exists>fields. x = JObj fields \<and> map_of fields ''self'' = None)))
   \<and> (\<forall>items items'. map_of items ''samples'' = map_of items' ''samples''
         \<longrightarrow> load_trainset (\<lambda>path. Inr (JObj items)) json_file_path
             = load_trainset (\<lambda>path. Inr (JObj items')) json_file_path)"
proof
  show "(\<exists>trainset. load_trainset json_load json_file_path = Inr trainset)
      = (\<exists>items samples xs. json_load json_file_path = Inr (JObj items)
            \<and> map_of items ''samples'' = Some samples
            \<and> iter samples = Inr xs
            \<and> (\<forall>x \<in> set xs. \<exists>fields. x = JObj fields \<and> map_of fields ''self'' = None))"
  proof (cases "json_load json_file_path")
    case (Inl e)
    then show ?thesis by (simp add: load_trainset_def)
  next
    case (Inr data)
    show ?thesis
    proof (cases data)
      case (JObj items)
      show ?thesis
      proof (cases "map_of items ''samples''")
        case None
        with Inr JObj show ?thesis by (simp add: load_trainset_def subscript_def getitem_def)
      next
        case (Some samples)
        show ?thesis
        proof (cases "iter samples")
          case (Inl e)
          with Inr JObj Some show ?thesis
            by (simp add: load_trainset_def subscript_def getitem_def)
        next
          case r: (Inr xs)
          with Inr JObj Some show ?thesis
            using load_loop_succeeds[of xs "[]"]
            by (simp add: load_trainset_def subscript_def getitem_def Example_succeeds)
        qed
      qed
    qed (use Inr in \<open>simp_all add: load_trainset_def subscript_def\<close>)
  qed
next
  show "\<forall>items items'. map_of items ''samples'' = map_of items' ''samples''
         \<longrightarrow> load_trainset (\<lambda>path. Inr (JObj items)) json_file_path
             = load_trainset (\<lambda>path. Inr (JObj items')) json_file_path"
    by (simp add: load_trainset_def subscript_def getitem_def)
qed

theorem load_trainset_succeeds_iff_witness:
  "load_trainset
      (\<lambda>path. Inr (JObj [(''version'', JInt 1),
                          (''samples'', JArr [JObj [(''text'', JStr ''a'')]]),
                          (''note'', JStr ''unused'')]))
      ''train.json''
   = load_trainset (\<lambda>path. Inr (JObj [(''samples'', JArr [JObj [(''text'', JStr ''a'')]])]))
      ''train.json''
   \<and> load_trainset (\<lambda>path. Inr (JObj [(''samples'', JArr [JObj [(''text'', JStr ''a'')]])]))
      ''train.json''
     = Inr [[(''text'', JStr ''a'')]]"
proof -
  let ?long = "[(''version'', JInt 1),
                (''samples'', JArr [JObj [(''text'', JStr ''a'')]]),
                (''note'', JStr ''unused'')]"
  let ?short = "[(''samples'', JArr [JObj [(''text'', JStr ''a'')]])]"
  have same: "map_of ?long ''samples'' = map_of ?short ''samples''" by simp
  have "load_trainset (\<lambda>path. Inr (JObj ?long)) ''train.json''
        = load_trainset (\<lambda>path. Inr (JObj ?short)) ''train.json''"
    using load_trainset_succeeds_iff [of "\<lambda>path. Inr (JObj ?short)" "''train.json''"] same
    by blast
  moreover have "load_trainset (\<lambda>path. Inr (JObj ?short)) ''train.json''
        = Inr [[(''text'', JStr ''a'')]]"
    by (simp add: load_trainset_def subscript_def getitem_def iter_def Example_def has_key_def)
  ultimately show ?thesis by simp
qed

text \<open>
  An iterable value under \<^verbatim>\<open>"samples"\<close> is not enough: on the parsed object
  \<^verbatim>\<open>{"samples": [1]}\<close> the key is there and its value is a list, and
  \<^verbatim>\<open>load_trainset\<close> raises \<^verbatim>\<open>TypeError\<close>; so it does on
  \<^verbatim>\<open>{"samples": [{"self": 1, "text": "a"}]}\<close>, whose only item is an object.
\<close>

theorem load_trainset_succeeds_iff_counterexample:
  "subscript (JObj [(''samples'', JArr [JInt 1])]) ''samples'' = Inr (JArr [JInt 1])
   \<and> iter (JArr [JInt 1]) = Inr [JInt 1]
   \<and> load_trainset (\<lambda>path. Inr (JObj [(''samples'', JArr [JInt 1])])) ''train.json''
       = Inl TypeError
   \<and> iter (JArr [JObj [(''self'', JInt 1), (''text'', JStr ''a'')]])
       = Inr [JObj [(''self'', JInt 1), (''text'', JStr ''a'')]]
   \<and> load_trainset
        (\<lambda>path. Inr (JObj [(''samples'', JArr [JObj [(''self'', JInt 1), (''text'', JStr ''a'')]])]))
        ''train.json''
       = Inl TypeError"
  by (simp add: load_trainset_def subscript_def getitem_def iter_def Example_def has_key_def)

text \<open>
  Claim C10, amended.  When the parsed file is an object whose \<^verbatim>\<open>"samples"\<close> value is
  an array of objects none of which has a key \<^verbatim>\<open>self\<close> or \<^verbatim>\<open>base\<close>,
  \<^verbatim>\<open>load_trainset\<close> returns a list with one example for each record, in the order of
  the array, and the items of the \<open>i\<close>-th example are the key-value pairs of the
  \<open>i\<close>-th record.
\<close>

theorem load_trainset_records:
  assumes "json_load json_file_path = Inr (JObj items)"
    and "map_of items ''samples'' = Some (JArr records)"
    and "\<forall>r \<in> set records. \<exists>fields. r = JObj fields
           \<and> map_of fields ''self'' = None \<and> map_of fields ''base'' = None"
  shows "\<exists>trainset. load_trainset json_load json_file_path = Inr trainset
           \<and> length trainset = length records
           \<and> (\<forall>i < length records. records ! i = JObj (trainset ! i))"
proof -
  from assms(3) have "\<forall>r \<in> set records. \<exists>fields. r = JObj fields" by blast
  then obtain ts where m: "records = map JObj ts"
    using ex_map_conv[of records JObj] by blast
  with assms(3) have "\<forall>f \<in> set ts. map_of f ''self'' = None \<and> map_of f ''base'' = None"
    by auto
  then have "load_loop records [] = Inr ts"
    using load_loop_plain[of ts "[]"] m by simp
  then have "load_trainset json_load json_file_path = Inr ts"
    using assms(1,2) by (simp add: load_trainset_def subscript_def getitem_def iter_def)
  moreover have "length ts = length records" using m by simp
  moreover have "\<forall>i < length records. records ! i = JObj (ts ! i)"
    using m by auto
  ultimately show ?thesis by blast
qed

theorem load_trainset_records_witness:
  "load_trainset
      (\<lambda>path. Inr (JObj [(''version'', JInt 1),
                          (''samples'', JArr [JObj [(''text'', JStr ''a''), (''missing'', JStr ''evidence'')],
                                             JObj [(''text'', JStr ''b'')]])]))
      ''train.json''
   = Inr [[(''text'', JStr ''a''), (''missing'', JStr ''evidence'')], [(''text'', JStr ''b'')]]"
proof -
  let ?items = "[(''version'', JInt 1),
                 (''samples'', JArr [JObj [(''text'', JStr ''a''), (''missing'', JStr ''evidence'')],
                                    JObj [(''text'', JStr ''b'')]])]"
  let ?records = "[JObj [(''text'', JStr ''a''), (''missing'', JStr ''evidence'')],
                   JObj [(''text'', JStr ''b'')]]"
  have a2: "map_of ?items ''samples'' = Some (JArr ?records)" by simp
  have a3: "\<forall>r \<in> set ?records. \<exists>fields. r = JObj fields
           \<and> map_of fields ''self'' = None \<and> map_of fields ''base'' = None" by simp
  from load_trainset_records [of "\<lambda>path. Inr (JObj ?items)" "''train.json''" ?items ?records] a2 a3
  obtain trainset where
    "load_trainset (\<lambda>path. Inr (JObj ?items)) ''train.json'' = Inr trainset"
    and "length trainset = length ?records"
    and "\<forall>i < length ?records. ?records ! i = JObj (trainset ! i)"
    by blast
  moreover have "load_trainset (\<lambda>path. Inr (JObj ?items)) ''train.json''
      = Inr [[(''text'', JStr ''a''), (''missing'', JStr ''evidence'')], [(''text'', JStr ''b'')]]"
    by (simp add: load_trainset_def subscript_def getitem_def iter_def Example_def has_key_def)
  ultimately show ?thesis by simp
qed

text \<open>
  The restriction is needed.  A record \<^verbatim>\<open>{"base": 1, "text": "a"}\<close> gives an example
  without the pair of \<^verbatim>\<open>base\<close>; a record whose \<^verbatim>\<open>base\<close> is a non-empty object gives an
  example that holds the pairs of that object; a record with a key \<^verbatim>\<open>self\<close>, or an
  element that is no object, makes \<^verbatim>\<open>load_trainset\<close> raise \<^verbatim>\<open>TypeError\<close>.
\<close>

theorem load_trainset_records_counterexample:
  "load_trainset
      (\<lambda>path. Inr (JObj [(''samples'', JArr [JObj [(''base'', JInt 1), (''text'', JStr ''a'')]])]))
      ''train.json''
     = Inr [[(''text'', JStr ''a'')]]
   \<and> JObj [(''base'', JInt 1), (''text'', JStr ''a'')] \<noteq> JObj [(''text'', JStr ''a'')]
   \<and> load_trainset
      (\<lambda>path. Inr (JObj [(''samples'',
          JArr [JObj [(''base'', JObj [(''text'', JStr ''z''), (''missing'', JStr ''evidence'')]),
                      (''text'', JStr ''a'')]])]))
      ''train.json''
     = Inr [[(''text'', JStr ''a''), (''missing'', JStr ''evidence'')]]
   \<and> load_trainset
      (\<lambda>path. Inr (JObj [(''samples'', JArr [JObj [(''text'', JStr ''a''), (''self'', JNull)]])]))
      ''train.json''
     = Inl TypeError
   \<and> load_trainset (\<lambda>path. Inr (JObj [(''samples'', JArr [JNull])])) ''train.json''
     = Inl TypeError"
  by (simp add: load_trainset_def subscript_def getitem_def iter_def Example_def has_key_def
      dict_update_def)

section \<open>The command-line interface\<close>

text \<open>
  Claim C6.  The script declares exactly one positional argument, \<^verbatim>\<open>json_file\<close>, and
  exactly one flag that takes a value, \<^verbatim>\<open>--optimizer\<close>, whose choices are
  \<^verbatim>\<open>BootstrapFewShot\<close> and \<^verbatim>\<open>MIPROv2\<close>; besides them the parser holds only the help
  flag it adds by itself, which takes no value.  Whatever the command line,
  when parsing succeeds the optimizer is one of the two strategies and
  \<^verbatim>\<open>json_file\<close> is one string of the command line.  A single path is accepted and
  selects \<^verbatim>\<open>MIPROv2\<close>; a path followed by \<^verbatim>\<open>--optimizer v\<close> is accepted exactly when
  \<open>v\<close> is one of the two strategies and is otherwise rejected by the parser (exit
  status 2); no argument at all, or two paths, are rejected.
\<close>

theorem command_line_arguments:
  "(\<forall>argv ns. parse_args parser argv = Inr ns \<longrightarrow>
      (map_of ns ''optimizer'' = Some (PyStr ''BootstrapFewShot'')
       \<or> map_of ns ''optimizer'' = Some (PyStr ''MIPROv2''))
      \<and> (\<exists>path \<in> set argv. map_of ns ''json_file'' = Some (PyStr path)))
   \<and> (\<forall>path. \<not> prefix ''-'' path \<longrightarrow>
         parse_args parser [path]
           = Inr [(''json_file'', PyStr path), (''optimizer'', PyStr ''MIPROv2'')])
   \<and> (\<forall>path v. \<not> prefix ''-'' path \<longrightarrow>
         parse_args parser [path, ''--optimizer'', v]
           = (if v = ''BootstrapFewShot'' \<or> v = ''MIPROv2''
              then Inr [(''optimizer'', PyStr v), (''json_file'', PyStr path)]
              else Inl (SystemExit 2)))
   \<and> parse_args parser [] = Inl (SystemExit 2)
   \<and> (\<forall>p q. \<not> prefix ''-'' p \<and> \<not> prefix ''-'' q \<longrightarrow>
         parse_args parser [p, q] = Inl (SystemExit 2))
   \<and> map dest (filter (\<lambda>a. option_strings a = []) parser) = [''json_file'']
   \<and> map option_strings (filter (\<lambda>a. option_strings a \<noteq> [] \<and> kind a = Store) parser)
       = [[''--optimizer'']]
   \<and> map choices (filter (\<lambda>a. option_strings a \<noteq> [] \<and> kind a = Store) parser)
       = [Some [''BootstrapFewShot'', ''MIPROv2'']]"
proof (intro conjI allI impI)
  fix argv ns
  assume "parse_args parser argv = Inr ns"
  from parse_args_general[OF this]
  show "map_of ns ''optimizer'' = Some (PyStr ''BootstrapFewShot'')
       \<or> map_of ns ''optimizer'' = Some (PyStr ''MIPROv2'')"
    and "\<exists>path \<in> set argv. map_of ns ''json_file'' = Some (PyStr path)"
    by simp_all
next
  fix path :: string
  assume "\<not> prefix ''-'' path"
  then show "parse_args parser [path]
           = Inr [(''json_file'', PyStr path), (''optimizer'', PyStr ''MIPROv2'')]"
    by (rule parse_one)
next
  fix path v :: string
  assume "\<not> prefix ''-'' path"
  then show "parse_args parser [path, ''--optimizer'', v]
           = (if v = ''BootstrapFewShot'' \<or> v = ''MIPROv2''
              then Inr [(''optimizer'', PyStr v), (''json_file'', PyStr path)]
              else Inl (SystemExit 2))"
    by (rule parse_with_optimizer)
next
  show "parse_args parser [] = Inl (SystemExit 2)" by (rule parse_nothing)
next
  fix p q :: string
  assume "\<not> prefix ''-'' p \<and> \<not> prefix ''-'' q"
  then show "parse_args parser [p, q] = Inl (SystemExit 2)"
    by (simp add: parse_two)
next
  show "map dest (filter (\<lambda>a. option_strings a = []) parser) = [''json_file'']"
    by (simp add: parser_eq)
next
  show "map option_strings (filter (\<lambda>a. option_strings a \<noteq> [] \<and> kind a = Store) parser)
       = [[''--optimizer'']]"
    by (simp add: parser_eq)
next
  show "map choices (filter (\<lambda>a. option_strings a \<noteq> [] \<and> kind a = Store) parser)
       = [Some [''BootstrapFewShot'', ''MIPROv2'']]"
    by (simp add: parser_eq)
qed

theorem command_line_arguments_witness:
  "parse_args parser [''train.json'']
     = Inr [(''json_file'', PyStr ''train.json''), (''optimizer'', PyStr ''MIPROv2'')]
   \<and> parse_args parser [''train.json'', ''--optimizer'', ''BootstrapFewShot'']
     = Inr [(''optimizer'', PyStr ''BootstrapFewShot''), (''json_file'', PyStr ''train.json'')]
   \<and> parse_args parser [''train.json'', ''--optimizer'', ''Adam''] = Inl (SystemExit 2)
   \<and> parse_args parser [] = Inl (SystemExit 2)
   \<and> parse_args parser [''train.json'', ''extra.json''] = Inl (SystemExit 2)"
proof -
  have plain: "\<not> prefix ''-'' ''train.json''" "\<not> prefix ''-'' ''extra.json''" by simp_all
  note c = command_line_arguments
  from c plain have "parse_args parser [''train.json'']
     = Inr [(''json_file'', PyStr ''train.json''), (''optimizer'', PyStr ''MIPROv2'')]"
    by blast
  moreover from c plain have "parse_args parser [''train.json'', ''--optimizer'', ''BootstrapFewShot'']
     = (if ''BootstrapFewShot'' = ''BootstrapFewShot'' \<or> ''BootstrapFewShot'' = ''MIPROv2''
        then Inr [(''optimizer'', PyStr ''BootstrapFewShot''), (''json_file'', PyStr ''train.json'')]
        else Inl (SystemExit 2))"
    by blast
  moreover from c plain have "parse_args parser [''train.json'', ''--optimizer'', ''Adam'']
     = (if ''Adam'' = ''BootstrapFewShot'' \<or> ''Adam'' = ''MIPROv2''
        then Inr [(''optimizer'', PyStr ''Adam''), (''json_file'', PyStr ''train.json'')]
        else Inl (SystemExit 2))"
    by blast
  moreover from c have "parse_args parser [] = Inl (SystemExit 2)" by blast
  moreover from c plain have "parse_args parser [''train.json'', ''extra.json''] = Inl (SystemExit 2)"
    by blast
  ultimately show ?thesis by simp
qed

end
